theory Spec2Isabelle
  imports Complex_Main
begin

section \<open>Python strings\<close>

text \<open>
  A Python \<open>str\<close> is a sequence of Unicode code points and \<open>len\<close> counts code points,
  so a string is a list of code points here. \<open>py\<close> turns an ASCII literal into one.
\<close>

type_synonym pystr = "nat list"

definition py :: "string \<Rightarrow> pystr" where
  "py s = map of_char s"

text \<open>
  The characters \<open>str.strip()\<close> removes when called without an argument: CPython's
  whitespace table (tab to carriage return, the four separators 0x1C to 0x1F, space,
  0x85, 0xA0, 0x1680, 0x2000 to 0x200A, 0x2028, 0x2029, 0x202F, 0x205F, 0x3000).
\<close>

definition isspace :: "nat \<Rightarrow> bool" where
  "isspace c \<longleftrightarrow>
     (9 \<le> c \<and> c \<le> 13) \<or> (28 \<le> c \<and> c \<le> 32) \<or> c = 133 \<or> c = 160 \<or> c = 5760 \<or>
     (8192 \<le> c \<and> c \<le> 8202) \<or> c = 8232 \<or> c = 8233 \<or> c = 8239 \<or> c = 8287 \<or> c = 12288"

definition strip :: "pystr \<Rightarrow> pystr" where
  "strip s = rev (dropWhile isspace (rev (dropWhile isspace s)))"

text \<open>
  \<open>s.split(sep)\<close>: the pieces between the occurrences of \<open>sep\<close>, found from the left and
  not overlapping; always at least one piece. Python raises on an empty separator; the
  only call of the source passes the literal of two newlines.
\<close>

fun py_split :: "'a list \<Rightarrow> 'a list \<Rightarrow> 'a list list" where
  "py_split sep [] = [[]]"
| "py_split sep (c # cs) =
     (if sep \<noteq> [] \<and> take (length sep) (c # cs) = sep
      then [] # py_split sep (drop (length sep) (c # cs))
      else (case py_split sep cs of p # ps \<Rightarrow> (c # p) # ps | [] \<Rightarrow> [[c]]))"

definition newline :: nat where
  "newline = 10"

section \<open>Chunk extraction (index_corpus_qdrant.py, iter_paragraphs)\<close>

text \<open>
  The body of the loop of \<open>iter_paragraphs\<close> for one file:
  \<^verbatim>\<open>
  raw_paragraphs = [p.strip() for p in text.split("\n\n")]
  paragraphs = [p for p in raw_paragraphs if len(p) > 40]
  for idx, para in enumerate(paragraphs): yield txt_path, idx, para
  \<close>
\<close>

definition raw_paragraphs :: "pystr \<Rightarrow> pystr list" where
  "raw_paragraphs body = map strip (py_split [newline, newline] body)"

definition paragraphs :: "pystr \<Rightarrow> pystr list" where
  "paragraphs body = filter (\<lambda>p. length p > 40) (raw_paragraphs body)"

definition paragraphs_of :: "pystr \<Rightarrow> (nat \<times> pystr) list" where
  "paragraphs_of body = enumerate 0 (paragraphs body)"

text \<open>
  An exception, by the name of its class and its message (\<open>str(exc)\<close>). It stands for
  an instance of \<open>Exception\<close>, which is what the file system and the clients of the
  two services raise and what \<open>except Exception\<close> catches.
\<close>

datatype exn = Exn string string

text \<open>
  What \<open>text_root.rglob("*.txt")\<close> finds, in the order it yields: under each path a
  directory (\<open>is_file()\<close> is false), a file whose \<open>read_text\<close> raises, or a file
  with its decoded text.
\<close>

datatype entry = Directory | Unreadable exn | Readable pystr

type_synonym text_root = "(pystr \<times> entry) list"

text \<open>The lines the indexer prints, one constructor for each \<open>print\<close> of the source.\<close>

datatype message =
    FailedToRead pystr exn
  | NoParagraphsFound
  | FoundParagraphs nat
  | GettingDimension pystr
  | EmbeddingDimension nat
  | Reusing pystr nat
  | Recreating pystr nat
  | Creating pystr nat
  | Upserted nat pystr
  | UpsertedFinal nat
  | IndexingComplete

text \<open>
  \<open>iter_paragraphs\<close> is a generator that prints while it runs: what it does, in order, is
  a list of notices (a file that could not be read) and of yielded paragraphs.
\<close>

datatype gen_item = Notice message | Para pystr nat pystr

fun iter_paragraphs :: "text_root \<Rightarrow> gen_item list" where
  "iter_paragraphs [] = []"
| "iter_paragraphs ((txt_path, Directory) # rest) = iter_paragraphs rest"
| "iter_paragraphs ((txt_path, Unreadable exc) # rest) =
     Notice (FailedToRead txt_path exc) # iter_paragraphs rest"
| "iter_paragraphs ((txt_path, Readable body) # rest) =
     map (\<lambda>(idx, para). Para txt_path idx para) (paragraphs_of body) @ iter_paragraphs rest"

section \<open>The services: embedding endpoint and vector store\<close>

type_synonym vector = "real list"

text \<open>
  Payload values: JSON null, booleans, integers and strings (floats, arrays and objects
  are not modelled). A payload is a dictionary, kept as an association list.
\<close>

datatype pyval = PyNone | PyBool bool | PyInt int | PyStr pystr

type_synonym payload = "(pystr \<times> pyval) list"

record point =
  p_id :: nat
  p_vector :: vector
  p_payload :: payload

datatype distance = COSINE | EUCLID | DOT

datatype vectors_config = VectorParams nat distance | NamedVectors "(pystr \<times> nat) list"

record collection =
  vectors :: vectors_config
  points :: "point list"

record collection_info =
  vectors_count :: "nat option"
  config_vectors :: vectors_config

text \<open>
  What one request to the embedding endpoint comes to, along the statements of
  \<open>get_embedding\<close>: \<open>session.post\<close> raises, \<open>raise_for_status\<close> raises its HTTPError,
  \<open>resp.json()\<close> or the lookup of \<open>"embedding"\<close> raises, or the vector is returned.
\<close>

datatype ollama_reply = PostRaises exn | StatusError exn | BodyRaises exn | Embedding vector

datatype event =
    Print message
  | EmbedRequest pystr
  | GetCollection pystr
  | RecreateCollection pystr nat distance
  | Upsert pystr "point list"

text \<open>
  The world the indexer runs in: the embedding endpoint (its reply to a prompt), the
  collections of the vector store, whether the store reports \<open>vectors_count\<close> (older
  servers report the number of vectors, newer ones leave it null), the failures still to
  come on the store's side (each call to the store takes the head: an exception it raises
  instead of taking effect, or none), and everything done so far, in order.
\<close>

record world =
  ollama :: "pystr \<Rightarrow> ollama_reply"
  collections :: "pystr \<rightharpoonup> collection"
  counts_vectors :: bool
  faults :: "exn option list"
  trace :: "event list"

definition emit :: "event \<Rightarrow> world \<Rightarrow> world" where
  "emit e w = w\<lparr>trace := trace w @ [e]\<rparr>"

definition take_fault :: "world \<Rightarrow> exn option \<times> world" where
  "take_fault w = (case faults w of [] \<Rightarrow> (None, w) | f # fs \<Rightarrow> (f, w\<lparr>faults := fs\<rparr>))"

definition not_found :: exn where
  "not_found = Exn ''UnexpectedResponse'' ''404 (Not Found)''"

definition get_collection :: "pystr \<Rightarrow> world \<Rightarrow> (exn + collection_info) \<times> world" where
  "get_collection name w =
     (case take_fault (emit (GetCollection name) w) of
        (Some e, w1) \<Rightarrow> (Inl e, w1)
      | (None, w1) \<Rightarrow>
          (case collections w1 name of
             None \<Rightarrow> (Inl not_found, w1)
           | Some c \<Rightarrow>
               (Inr \<lparr>vectors_count = (if counts_vectors w1 then Some (length (points c)) else None),
                     config_vectors = vectors c\<rparr>, w1)))"

definition recreate_collection ::
  "pystr \<Rightarrow> nat \<Rightarrow> distance \<Rightarrow> world \<Rightarrow> (exn + unit) \<times> world" where
  "recreate_collection name vdim metric w =
     (case take_fault (emit (RecreateCollection name vdim metric) w) of
        (Some e, w1) \<Rightarrow> (Inl e, w1)
      | (None, w1) \<Rightarrow>
          (Inr (), w1\<lparr>collections :=
                       (collections w1)(name \<mapsto> \<lparr>vectors = VectorParams vdim metric, points = []\<rparr>)\<rparr>))"

definition write_points :: "point list \<Rightarrow> point list \<Rightarrow> point list" where
  "write_points old new = filter (\<lambda>p. p_id p \<notin> set (map p_id new)) old @ new"

definition upsert :: "pystr \<Rightarrow> point list \<Rightarrow> world \<Rightarrow> (exn + unit) \<times> world" where
  "upsert name pts w =
     (case take_fault (emit (Upsert name pts) w) of
        (Some e, w1) \<Rightarrow> (Inl e, w1)
      | (None, w1) \<Rightarrow>
          (case collections w1 name of
             None \<Rightarrow> (Inl not_found, w1)
           | Some c \<Rightarrow>
               (Inr (), w1\<lparr>collections :=
                            (collections w1)(name \<mapsto> c\<lparr>points := write_points (points c) pts\<rparr>)\<rparr>)))"

section \<open>The indexer (index_corpus_qdrant.py)\<close>

text \<open>
  \<open>get_embedding\<close> of the indexer: one request, and whatever is raised on the way
  leaves the function.
\<close>

definition get_embedding :: "pystr \<Rightarrow> world \<Rightarrow> (exn + vector) \<times> world" where
  "get_embedding prompt w =
     (let w1 = emit (EmbedRequest prompt) w in
      case ollama w1 prompt of
        PostRaises e \<Rightarrow> (Inl e, w1)
      | StatusError e \<Rightarrow> (Inl e, w1)
      | BodyRaises e \<Rightarrow> (Inl e, w1)
      | Embedding v \<Rightarrow> (Inr v, w1))"

text \<open>
  \<^verbatim>\<open>existing_dim = existing.vectors_count or existing.config.params.vectors.size\<close>:
  \<open>or\<close> yields its left operand unless that is null or zero; a configuration of named
  vectors has no attribute \<open>size\<close>.
\<close>

definition existing_dim :: "collection_info \<Rightarrow> exn + nat" where
  "existing_dim existing =
     (case vectors_count existing of
        Some (Suc n) \<Rightarrow> Inr (Suc n)
      | _ \<Rightarrow>
          (case config_vectors existing of
             VectorParams sz _ \<Rightarrow> Inr sz
           | NamedVectors _ \<Rightarrow> Inl (Exn ''AttributeError'' ''size'')))"

definition ensure_collection ::
  "pystr \<Rightarrow> nat \<Rightarrow> distance \<Rightarrow> world \<Rightarrow> (exn + unit) \<times> world" where
  "ensure_collection collection_name vdim metric w =
     (case get_collection collection_name w of
        (Inl e, w1) \<Rightarrow> (Inl e, w1)
      | (Inr existing, w1) \<Rightarrow>
          (case existing_dim existing of
             Inl e \<Rightarrow> (Inl e, w1)
           | Inr d \<Rightarrow>
               if d = vdim then (Inr (), emit (Print (Reusing collection_name vdim)) w1)
               else recreate_collection collection_name vdim metric
                      (emit (Print (Recreating collection_name vdim)) w1)))"

text \<open>
  The command line: the text directory (none when the path does not exist), the
  collection and the batch size, which \<open>argparse\<close> reads as any integer. The URLs, the
  model name and the key select the services of the world and are not modelled.
\<close>

record args =
  text_dir :: "text_root option"
  collection :: pystr
  batch_size :: int

datatype outcome = Returned | SystemExit | Raised exn

text \<open>\<open>sum(1 for _ in iter_paragraphs(args.text_dir))\<close>: runs the generator to its end.\<close>

fun count_paragraphs :: "gen_item list \<Rightarrow> world \<Rightarrow> nat \<times> world" where
  "count_paragraphs [] w = (0, w)"
| "count_paragraphs (Notice m # rest) w = count_paragraphs rest (emit (Print m) w)"
| "count_paragraphs (Para path idx para # rest) w =
     (case count_paragraphs rest w of (n, w1) \<Rightarrow> (Suc n, w1))"

text \<open>\<open>next(paragraphs)\<close>: runs the generator to its first yield; none is StopIteration.\<close>

fun next_paragraph ::
  "gen_item list \<Rightarrow> world \<Rightarrow> ((pystr \<times> nat \<times> pystr) \<times> gen_item list) option \<times> world" where
  "next_paragraph [] w = (None, w)"
| "next_paragraph (Notice m # rest) w = next_paragraph rest (emit (Print m) w)"
| "next_paragraph (Para path idx para # rest) w = (Some ((path, idx, para), rest), w)"

text \<open>
  The try block around \<open>ensure_collection\<close>: \<open>except Exception\<close> handles whatever it
  raised by creating the collection.
\<close>

definition create_or_check :: "pystr \<Rightarrow> nat \<Rightarrow> world \<Rightarrow> (exn + unit) \<times> world" where
  "create_or_check name vdim w =
     (case ensure_collection name vdim COSINE w of
        (Inl e, w1) \<Rightarrow> recreate_collection name vdim COSINE (emit (Print (Creating name vdim)) w1)
      | (Inr u, w1) \<Rightarrow> (Inr u, w1))"

text \<open>
  \<open>all_paragraphs\<close>: the first paragraph with its embedding, then the rest of the
  generator with none.
\<close>

datatype stream_item = Printed message | Yielded pystr nat pystr "vector option"

fun rest_item :: "gen_item \<Rightarrow> stream_item" where
  "rest_item (Notice m) = Printed m"
| "rest_item (Para path idx para) = Yielded path idx para None"

definition all_paragraphs ::
  "pystr \<Rightarrow> nat \<Rightarrow> pystr \<Rightarrow> vector \<Rightarrow> gen_item list \<Rightarrow> stream_item list" where
  "all_paragraphs first_path first_idx first_text first_embedding rest =
     Yielded first_path first_idx first_text (Some first_embedding) # map rest_item rest"

definition make_point :: "nat \<Rightarrow> vector \<Rightarrow> pystr \<Rightarrow> nat \<Rightarrow> pystr \<Rightarrow> point" where
  "make_point pid emb path idx para =
     \<lparr>p_id = pid, p_vector = emb,
      p_payload = [(py ''file'', PyStr path), (py ''paragraph_index'', PyInt (int idx)),
                   (py ''text'', PyStr para)]\<rparr>"

text \<open>
  The indexing loop, with the counter of point ids and the buffer: embed unless the
  embedding came along, append the point, and upsert and clear when the buffer has reached
  the batch size. An exception ends the run. The result is the buffer left at the end.
\<close>

fun index_loop ::
  "args \<Rightarrow> stream_item list \<Rightarrow> nat \<Rightarrow> point list \<Rightarrow> world \<Rightarrow> (exn + point list) \<times> world" where
  "index_loop a [] pid buffer w = (Inr buffer, w)"
| "index_loop a (Printed m # rest) pid buffer w = index_loop a rest pid buffer (emit (Print m) w)"
| "index_loop a (Yielded path idx para maybe_emb # rest) pid buffer w =
     (case (case maybe_emb of None \<Rightarrow> get_embedding para w | Some emb \<Rightarrow> (Inr emb, w)) of
        (Inl e, w1) \<Rightarrow> (Inl e, w1)
      | (Inr emb, w1) \<Rightarrow>
          (let buffer1 = buffer @ [make_point pid emb path idx para] in
           if int (length buffer1) \<ge> batch_size a then
             (case upsert (collection a) buffer1 w1 of
                (Inl e, w2) \<Rightarrow> (Inl e, w2)
              | (Inr u, w2) \<Rightarrow>
                  index_loop a rest (Suc pid) [] (emit (Print (Upserted (length buffer1) path)) w2))
           else index_loop a rest (Suc pid) buffer1 w1))"

definition flush_final :: "args \<Rightarrow> point list \<Rightarrow> world \<Rightarrow> outcome \<times> world" where
  "flush_final a buffer w =
     (if buffer \<noteq> [] then
        (case upsert (collection a) buffer w of
           (Inl e, w1) \<Rightarrow> (Raised e, w1)
         | (Inr u, w1) \<Rightarrow>
             (Returned, emit (Print IndexingComplete) (emit (Print (UpsertedFinal (length buffer))) w1)))
      else (Returned, emit (Print IndexingComplete) w))"

text \<open>From the peek at the first paragraph to the end of \<open>main\<close>.\<close>

definition index_from :: "args \<Rightarrow> gen_item list \<Rightarrow> world \<Rightarrow> outcome \<times> world" where
  "index_from a gen w =
     (case next_paragraph gen w of
        (None, w1) \<Rightarrow> (Returned, emit (Print NoParagraphsFound) w1)
      | (Some ((first_path, first_idx, first_text), rest), w1) \<Rightarrow>
          (case get_embedding first_text (emit (Print (GettingDimension first_path)) w1) of
             (Inl e, w2) \<Rightarrow> (Raised e, w2)
           | (Inr first_embedding, w2) \<Rightarrow>
               (case create_or_check (collection a) (length first_embedding)
                       (emit (Print (EmbeddingDimension (length first_embedding))) w2) of
                  (Inl e, w3) \<Rightarrow> (Raised e, w3)
                | (Inr u, w3) \<Rightarrow>
                    (case index_loop a
                            (all_paragraphs first_path first_idx first_text first_embedding rest)
                            0 [] w3 of
                       (Inl e, w4) \<Rightarrow> (Raised e, w4)
                     | (Inr buffer, w4) \<Rightarrow> flush_final a buffer w4))))"

definition main :: "args \<Rightarrow> world \<Rightarrow> outcome \<times> world" where
  "main a w =
     (case text_dir a of
        None \<Rightarrow> (SystemExit, w)
      | Some tree \<Rightarrow>
          (case count_paragraphs (iter_paragraphs tree) w of
             (total_paragraphs, w1) \<Rightarrow>
               if total_paragraphs = 0 then (Returned, emit (Print NoParagraphsFound) w1)
               else index_from a (iter_paragraphs tree)
                      (emit (Print (FoundParagraphs total_paragraphs)) w1)))"

section \<open>The search backend (lectio_backend.py)\<close>

record search_request =
  query :: pystr
  top_k :: int

text \<open>The request as pydantic builds it from the body: \<open>top_k\<close> is 5 when the body has none.\<close>

definition SearchRequest :: "pystr \<Rightarrow> int option \<Rightarrow> search_request" where
  "SearchRequest q k = \<lparr>query = q, top_k = (case k of None \<Rightarrow> 5 | Some n \<Rightarrow> n)\<rparr>"

record search_result =
  r_score :: real
  r_file :: pystr
  r_paragraph_index :: int
  r_text :: pystr

record scored_point =
  sp_id :: nat
  sp_score :: real
  sp_payload :: "payload option"

text \<open>What leaves a function of the backend: an \<open>HTTPException\<close> or any other exception.\<close>

datatype raised = HTTPException nat string | Error exn

datatype call = Embed pystr | Search pystr vector int

text \<open>
  The backend's surroundings: the embedding endpoint, the answer of \<open>client.search\<close> to
  a collection, a query vector and a limit, the configured collection, and Python's
  reading of a string as an integer literal (none where \<open>int\<close> raises ValueError).
\<close>

record backend =
  embed_endpoint :: "pystr \<Rightarrow> ollama_reply"
  qdrant_search :: "pystr \<Rightarrow> vector \<Rightarrow> int \<Rightarrow> exn + scored_point list"
  qdrant_collection :: pystr
  int_literal :: "pystr \<Rightarrow> int option"

fun exn_str :: "exn \<Rightarrow> string" where
  "exn_str (Exn cls msg) = msg"

definition lectio_get_embedding :: "backend \<Rightarrow> pystr \<Rightarrow> raised + vector" where
  "lectio_get_embedding b prompt =
     (case embed_endpoint b prompt of
        PostRaises e \<Rightarrow> Inl (Error e)
      | StatusError e \<Rightarrow> Inl (HTTPException 502 (''Ollama error: '' @ exn_str e))
      | BodyRaises e \<Rightarrow> Inl (Error e)
      | Embedding v \<Rightarrow> Inr v)"

function digits :: "nat \<Rightarrow> pystr" where
  "digits n = (if n < 10 then [48 + n] else digits (n div 10) @ [48 + n mod 10])"
  by pat_completeness auto
termination
  by (relation "measure id") auto

declare digits.simps [simp del]

definition py_str :: "pyval \<Rightarrow> pystr" where
  "py_str v =
     (case v of
        PyNone \<Rightarrow> py ''None''
      | PyBool b \<Rightarrow> (if b then py ''True'' else py ''False'')
      | PyInt i \<Rightarrow> (if i < 0 then 45 # digits (nat (- i)) else digits (nat i))
      | PyStr s \<Rightarrow> s)"

definition py_int :: "(pystr \<Rightarrow> int option) \<Rightarrow> pyval \<Rightarrow> exn + int" where
  "py_int literal v =
     (case v of
        PyNone \<Rightarrow> Inl (Exn ''TypeError'' ''int() argument must be a string, a bytes-like object or a real number, not NoneType'')
      | PyBool b \<Rightarrow> Inr (if b then 1 else 0)
      | PyInt i \<Rightarrow> Inr i
      | PyStr s \<Rightarrow>
          (case literal s of
             None \<Rightarrow> Inl (Exn ''ValueError'' ''invalid literal for int() with base 10'')
           | Some i \<Rightarrow> Inr i))"

definition dict_get :: "payload \<Rightarrow> pystr \<Rightarrow> pyval \<Rightarrow> pyval" where
  "dict_get d k dflt = (case map_of d k of None \<Rightarrow> dflt | Some v \<Rightarrow> v)"

text \<open>\<open>point.payload or {}\<close>\<close>

definition payload_or_empty :: "scored_point \<Rightarrow> payload" where
  "payload_or_empty p = (case sp_payload p of None \<Rightarrow> [] | Some d \<Rightarrow> d)"

definition point_to_result :: "backend \<Rightarrow> scored_point \<Rightarrow> exn + search_result" where
  "point_to_result b p =
     (let payload = payload_or_empty p in
      case py_int (int_literal b) (dict_get payload (py ''paragraph_index'') (PyInt 0)) of
        Inl e \<Rightarrow> Inl e
      | Inr idx \<Rightarrow>
          Inr \<lparr>r_score = (if sp_score p \<noteq> 0 then sp_score p else 0),
               r_file = py_str (dict_get payload (py ''file'') (PyStr [])),
               r_paragraph_index = idx,
               r_text = py_str (dict_get payload (py ''text'') (PyStr []))\<rparr>)"

text \<open>\<open>[point_to_result(p) for p in points]\<close>: the first exception ends the comprehension.\<close>

fun results_of :: "backend \<Rightarrow> scored_point list \<Rightarrow> exn + search_result list" where
  "results_of b [] = Inr []"
| "results_of b (p # ps) =
     (case point_to_result b p of
        Inl e \<Rightarrow> Inl e
      | Inr r \<Rightarrow> (case results_of b ps of Inl e \<Rightarrow> Inl e | Inr rs \<Rightarrow> Inr (r # rs)))"

text \<open>
  The handler of \<open>POST /search\<close>, with the calls it makes to the two services. An
  \<open>HTTPException\<close> is the response with that status; any other exception leaves the
  handler unhandled.
\<close>

definition search :: "backend \<Rightarrow> search_request \<Rightarrow> (raised + search_result list) \<times> call list" where
  "search b req =
     (let q = strip (query req) in
      if q = [] then (Inl (HTTPException 400 ''Query text is empty.''), [])
      else
        (case lectio_get_embedding b q of
           Inl (HTTPException code detail) \<Rightarrow> (Inl (HTTPException code detail), [Embed q])
         | Inl (Error e) \<Rightarrow>
             (Inl (HTTPException 502 (''Failed to get embedding: '' @ exn_str e)), [Embed q])
         | Inr embedding \<Rightarrow>
             (case qdrant_search b (qdrant_collection b) embedding (top_k req) of
                Inl e \<Rightarrow>
                  (Inl (HTTPException 502 (''Qdrant search failed: '' @ exn_str e)),
                   [Embed q, Search (qdrant_collection b) embedding (top_k req)])
              | Inr pts \<Rightarrow>
                  (case results_of b pts of
                     Inl e \<Rightarrow> (Inl (Error e), [Embed q, Search (qdrant_collection b) embedding (top_k req)])
                   | Inr results \<Rightarrow>
                       (Inr results, [Embed q, Search (qdrant_collection b) embedding (top_k req)])))))"

section \<open>Observations on a run\<close>

text \<open>The paragraphs a generator yields and the notices it prints, each in order.\<close>

fun yielded :: "gen_item list \<Rightarrow> (pystr \<times> nat \<times> pystr) list" where
  "yielded [] = []"
| "yielded (Notice m # rest) = yielded rest"
| "yielded (Para path idx para # rest) = (path, idx, para) # yielded rest"

fun notices :: "gen_item list \<Rightarrow> message list" where
  "notices [] = []"
| "notices (Notice m # rest) = m # notices rest"
| "notices (Para path idx para # rest) = notices rest"

text \<open>The chunks of a corpus: source, ordinal index and content, in the order of the stream.\<close>

definition chunks :: "text_root \<Rightarrow> (pystr \<times> nat \<times> pystr) list" where
  "chunks tree = yielded (iter_paragraphs tree)"

text \<open>
  Read off a trace: the number of points of each upsert, the prompts sent to the
  embedding endpoint, and the calls to the vector store.
\<close>

fun upsert_sizes :: "event list \<Rightarrow> nat list" where
  "upsert_sizes [] = []"
| "upsert_sizes (Upsert name pts # evs) = length pts # upsert_sizes evs"
| "upsert_sizes (ev # evs) = upsert_sizes evs"

fun embed_requests :: "event list \<Rightarrow> pystr list" where
  "embed_requests [] = []"
| "embed_requests (EmbedRequest prompt # evs) = prompt # embed_requests evs"
| "embed_requests (ev # evs) = embed_requests evs"

fun store_calls :: "event list \<Rightarrow> event list" where
  "store_calls [] = []"
| "store_calls (Print m # evs) = store_calls evs"
| "store_calls (EmbedRequest prompt # evs) = store_calls evs"
| "store_calls (ev # evs) = ev # store_calls evs"

fun stream_texts :: "stream_item list \<Rightarrow> pystr list" where
  "stream_texts [] = []"
| "stream_texts (Printed m # rest) = stream_texts rest"
| "stream_texts (Yielded path idx para maybe_emb # rest) = para # stream_texts rest"

fun fresh_texts :: "stream_item list \<Rightarrow> pystr list" where
  "fresh_texts [] = []"
| "fresh_texts (Printed m # rest) = fresh_texts rest"
| "fresh_texts (Yielded path idx para None # rest) = para # fresh_texts rest"
| "fresh_texts (Yielded path idx para (Some emb) # rest) = fresh_texts rest"

text \<open>
  The points written by the upserts of a trace, in order; the vector the endpoint returns
  for a prompt; and the points of a stream of paragraphs and of a list of chunks, numbered
  from a first id on.
\<close>

fun upserted :: "event list \<Rightarrow> point list" where
  "upserted [] = []"
| "upserted (Upsert name pts # evs) = pts @ upserted evs"
| "upserted (ev # evs) = upserted evs"

definition embedding_of :: "world \<Rightarrow> pystr \<Rightarrow> vector" where
  "embedding_of w prompt = (case ollama w prompt of Embedding v \<Rightarrow> v | _ \<Rightarrow> [])"

definition answers :: "world \<Rightarrow> pystr \<Rightarrow> bool" where
  "answers w prompt = (case ollama w prompt of Embedding v \<Rightarrow> True | _ \<Rightarrow> False)"

fun stream_points :: "(pystr \<Rightarrow> vector) \<Rightarrow> nat \<Rightarrow> stream_item list \<Rightarrow> point list" where
  "stream_points f pid [] = []"
| "stream_points f pid (Printed m # rest) = stream_points f pid rest"
| "stream_points f pid (Yielded path idx para maybe_emb # rest) =
     make_point pid (case maybe_emb of None \<Rightarrow> f para | Some emb \<Rightarrow> emb)
       path idx para # stream_points f (Suc pid) rest"

fun chunk_points ::
  "(pystr \<Rightarrow> vector) \<Rightarrow> nat \<Rightarrow> (pystr \<times> nat \<times> pystr) list \<Rightarrow> point list" where
  "chunk_points f pid [] = []"
| "chunk_points f pid ((path, idx, para) # rest) =
     make_point pid (f para) path idx para # chunk_points f (Suc pid) rest"

text \<open>\<open>n\<close> items in batches of \<open>b\<close>: full batches, then the remainder if there is one.\<close>

definition batches :: "nat \<Rightarrow> nat \<Rightarrow> nat list" where
  "batches n b = replicate (n div b) b @ (if n mod b = 0 then [] else [n mod b])"

text \<open>
  A point whose \<open>paragraph_index\<close> is missing or is a value that \<open>int\<close> accepts, and a
  point that lacks a field of the payload.
\<close>

definition index_ok :: "backend \<Rightarrow> scored_point \<Rightarrow> bool" where
  "index_ok b p =
     (case map_of (payload_or_empty p) (py ''paragraph_index'') of
        None \<Rightarrow> True
      | Some v \<Rightarrow> (case py_int (int_literal b) v of Inl e \<Rightarrow> False | Inr i \<Rightarrow> True))"

definition lacks :: "scored_point \<Rightarrow> string \<Rightarrow> bool" where
  "lacks p k \<longleftrightarrow> map_of (payload_or_empty p) (py k) = None"

section \<open>Example inputs\<close>

definition demo_backend :: backend where
  "demo_backend =
     \<lparr>embed_endpoint = (\<lambda>prompt. Embedding [1, 0]),
      qdrant_search = (\<lambda>name v limit. Inr []),
      qdrant_collection = py ''lectio_corpus'',
      int_literal = (\<lambda>s. None)\<rparr>"

text \<open>A store that refuses a limit below 1, as the service does.\<close>

definition strict_backend :: backend where
  "strict_backend =
     \<lparr>embed_endpoint = (\<lambda>prompt. Embedding [1, 0]),
      qdrant_search = (\<lambda>name v limit.
         if limit < 1 then Inl (Exn ''UnexpectedResponse'' ''400 (Bad Request)'') else Inr []),
      qdrant_collection = py ''lectio_corpus'',
      int_literal = (\<lambda>s. None)\<rparr>"

definition null_index_backend :: backend where
  "null_index_backend =
     \<lparr>embed_endpoint = (\<lambda>prompt. Embedding [1, 0]),
      qdrant_search = (\<lambda>name v limit.
         Inr [\<lparr>sp_id = 0, sp_score = 1, sp_payload = Some [(py ''paragraph_index'', PyInt 3)]\<rparr>,
              \<lparr>sp_id = 1, sp_score = 1, sp_payload = Some [(py ''paragraph_index'', PyNone)]\<rparr>]),
      qdrant_collection = py ''lectio_corpus'',
      int_literal = (\<lambda>s. None)\<rparr>"

definition sparse_backend :: backend where
  "sparse_backend =
     \<lparr>embed_endpoint = (\<lambda>prompt. Embedding [1, 0]),
      qdrant_search = (\<lambda>name v limit.
         Inr [\<lparr>sp_id = 0, sp_score = 1, sp_payload = None\<rparr>,
              \<lparr>sp_id = 1, sp_score = 1, sp_payload = Some [(py ''text'', PyStr (py ''abc''))]\<rparr>]),
      qdrant_collection = py ''lectio_corpus'',
      int_literal = (\<lambda>s. None)\<rparr>"

text \<open>A store that holds three points of dimension 2 and reports its number of vectors.\<close>

definition stale_world :: world where
  "stale_world =
     \<lparr>ollama = (\<lambda>prompt. Embedding [1, 0]),
      collections = [py ''lectio_corpus'' \<mapsto>
         \<lparr>vectors = VectorParams 2 COSINE,
          points = [make_point 0 [1, 0] (py ''a.txt'') 0 (py ''x''),
                    make_point 1 [0, 1] (py ''a.txt'') 1 (py ''y''),
                    make_point 2 [1, 1] (py ''a.txt'') 2 (py ''z'')]\<rparr>],
      counts_vectors = True,
      faults = [],
      trace = []\<rparr>"

text \<open>An empty store, and one that is out of reach at the first call.\<close>

definition fresh_world :: world where
  "fresh_world =
     \<lparr>ollama = (\<lambda>prompt. Embedding [1, 0]),
      collections = Map.empty,
      counts_vectors = True,
      faults = [],
      trace = []\<rparr>"

text \<open>An empty store with an endpoint whose vector depends on the prompt.\<close>

definition measuring_world :: world where
  "measuring_world =
     \<lparr>ollama = (\<lambda>prompt. Embedding [real (length prompt), 1]),
      collections = Map.empty,
      counts_vectors = True,
      faults = [],
      trace = []\<rparr>"

definition unreachable_world :: world where
  "unreachable_world = fresh_world\<lparr>faults := [Some (Exn ''ConnectionError'' ''refused'')]\<rparr>"

definition short_corpus :: text_root where
  "short_corpus =
     [(py ''a.txt'', Readable (py ''Short.'')),
      (py ''b.txt'', Unreadable (Exn ''PermissionError'' ''denied'')),
      (py ''c.txt'', Directory)]"

definition long_a :: pystr where
  "long_a = py ''This is a sufficiently long paragraph exceeding forty characters for retention.''"

definition long_b :: pystr where
  "long_b = py ''A second paragraph that is also longer than forty characters.''"

definition long_c :: pystr where
  "long_c = py ''The third paragraph of the corpus, from another file of it.''"

definition small_corpus :: text_root where
  "small_corpus =
     [(py ''a.txt'', Readable (py ''Short.'' @ [newline, newline] @ long_a @ [newline, newline, newline] @ long_b)),
      (py ''b.txt'', Readable (py ''  '' @ long_c @ [newline]))]"

definition small_args :: args where
  "small_args = \<lparr>text_dir = Some small_corpus, collection = py ''lectio_corpus'', batch_size = 2\<rparr>"

definition short_args :: args where
  "short_args = \<lparr>text_dir = Some short_corpus, collection = py ''lectio_corpus'', batch_size = 64\<rparr>"

section \<open>The splitting rule in the words of the specification\<close>

text \<open>
  The lines of a body are the pieces between its newline characters. A fully empty line
  is a line without any character. The body is divided at each run of one or more fully
  empty lines: a segment is a maximal run of lines that are not empty, joined by
  newlines again. Each segment is trimmed, and the chunks are the trimmed segments of
  more than 40 characters, numbered from 0 in their order.
\<close>

fun lines_of :: "pystr \<Rightarrow> pystr list" where
  "lines_of [] = [[]]"
| "lines_of (c # cs) =
     (if c = newline then [] # lines_of cs
      else (case lines_of cs of l # ls \<Rightarrow> (c # l) # ls | [] \<Rightarrow> [[c]]))"

fun line_groups :: "pystr list \<Rightarrow> pystr list list" where
  "line_groups [] = [[]]"
| "line_groups (l # ls) =
     (if l = [] then [] # line_groups ls
      else (case line_groups ls of g # gs \<Rightarrow> (l # g) # gs | [] \<Rightarrow> [[l]]))"

fun join_lines :: "pystr list \<Rightarrow> pystr" where
  "join_lines [] = []"
| "join_lines [l] = l"
| "join_lines (l # ls) = l @ newline # join_lines ls"

definition spec_segments :: "pystr \<Rightarrow> pystr list" where
  "spec_segments body = map join_lines (filter (\<lambda>g. g \<noteq> []) (line_groups (lines_of body)))"

definition spec_chunks :: "pystr \<Rightarrow> (nat \<times> pystr) list" where
  "spec_chunks body =
     enumerate 0 (filter (\<lambda>s. length s > 40) (map strip (spec_segments body)))"

text \<open>
  The pieces that splitting at two newlines gives, read off the lines of the body: an
  empty line after a line ends the piece, and the next piece starts after it.
\<close>

fun blocks :: "pystr list \<Rightarrow> pystr list" where
  "blocks [] = [[]]"
| "blocks [l] = [l]"
| "blocks (l # l' # ls) =
     (if l' = [] then (if ls = [] then [l @ [newline]] else l # blocks ls)
      else (case blocks (l' # ls) of b # bs \<Rightarrow> (l @ newline # b) # bs | [] \<Rightarrow> [l]))"

text \<open>The trimmed pieces that are not empty.\<close>

definition nonblank :: "pystr list \<Rightarrow> pystr list" where
  "nonblank ss = filter (\<lambda>s. s \<noteq> []) (map strip ss)"

definition scenario_body :: pystr where
  "scenario_body = py ''Short.'' @ [newline, newline] @ long_a"

section \<open>The split of the source and the splitting rule\<close>

lemmas run_defs =
  main_def index_from_def flush_final_def create_or_check_def ensure_collection_def
  existing_dim_def get_collection_def recreate_collection_def upsert_def get_embedding_def
  take_fault_def emit_def all_paragraphs_def make_point_def write_points_def not_found_def

lemmas text_defs =
  paragraphs_of_def paragraphs_def raw_paragraphs_def py_def newline_def strip_def isspace_def
  enumerate_eq_zip

lemma isspace_newline [simp]: "isspace newline"
  by (simp add: isspace_def newline_def)

lemma strip_Nil [simp]: "strip [] = []"
  by (simp add: strip_def)

lemma strip_cons_space: "isspace c \<Longrightarrow> strip (c # s) = strip s"
  by (simp add: strip_def)

lemma strip_snoc_space:
  assumes "isspace c"
  shows "strip (s @ [c]) = strip s"
proof (cases "\<forall>x \<in> set s. isspace x")
  case True
  then have a: "dropWhile isspace s = []" by simp
  from True assms have b: "dropWhile isspace (s @ [c]) = []" by (simp add: dropWhile_append)
  show ?thesis unfolding strip_def a b by simp
next
  case False
  then have "dropWhile isspace (s @ [c]) = dropWhile isspace s @ [c]"
    by (simp add: dropWhile_append)
  with assms show ?thesis by (simp add: strip_def)
qed

lemma py_split_not_Nil [simp]: "py_split sep s \<noteq> []"
  by (induction sep s rule: py_split.induct) (auto split: list.splits)

lemma blocks_not_Nil [simp]: "blocks ls \<noteq> []"
  by (induction ls rule: blocks.induct) (auto split: list.splits)

lemma lines_of_not_Nil [simp]: "lines_of s \<noteq> []"
  by (induction s) (auto split: list.splits)

lemma line_groups_not_Nil [simp]: "line_groups ls \<noteq> []"
  by (induction ls) (auto split: list.splits)

lemma blocks_push:
  "blocks ((c # l) # ls) = (case blocks (l # ls) of b # bs \<Rightarrow> (c # b) # bs | [] \<Rightarrow> [[c]])"
proof (cases ls)
  case Nil
  then show ?thesis by simp
next
  case (Cons l' ls')
  then show ?thesis by (auto split: list.splits)
qed

lemma lines_of_newline_head:
  "lines_of s = [] # ls \<Longrightarrow> ls \<noteq> [] \<Longrightarrow> \<exists>s'. s = newline # s' \<and> ls = lines_of s'"
  by (cases s) (auto split: if_splits list.splits)

lemma lines_of_single_empty: "lines_of s = [[]] \<Longrightarrow> s = []"
  by (cases s) (auto split: if_splits list.splits)

lemma lines_of_head_nonempty:
  "lines_of s = (c # l) # ls \<Longrightarrow> \<exists>s'. s = c # s' \<and> c \<noteq> newline \<and> lines_of s' = l # ls"
  by (cases s) (auto split: if_splits list.splits)

lemma blocks_lines_of: "blocks (lines_of s) = py_split [newline, newline] s"
proof (induction s rule: length_induct)
  case (1 s)
  show ?case
  proof (cases s)
    case Nil
    then show ?thesis by simp
  next
    case (Cons c cs)
    have ih: "blocks (lines_of cs) = py_split [newline, newline] cs"
      using 1 Cons by simp
    show ?thesis
    proof (cases "c = newline")
      case False
      obtain l ls where L: "lines_of cs = l # ls"
        by (cases "lines_of cs") auto
      have "blocks (lines_of (c # cs)) =
              (case blocks (lines_of cs) of b # bs \<Rightarrow> (c # b) # bs | [] \<Rightarrow> [[c]])"
        using False L by (simp add: blocks_push)
      also have "\<dots> = py_split [newline, newline] (c # cs)"
        using False ih by simp
      finally show ?thesis using Cons by simp
    next
      case True
      show ?thesis
      proof (cases cs)
        case Nil
        with True Cons show ?thesis by simp
      next
        case cs: (Cons d ds)
        show ?thesis
        proof (cases "d = newline")
          case d: True
          have "blocks (lines_of ds) = py_split [newline, newline] ds"
            using 1 Cons cs by simp
          with True d Cons cs show ?thesis by simp
        next
          case d: False
          obtain l ls where L: "lines_of ds = l # ls"
            by (cases "lines_of ds") auto
          obtain p ps where P: "py_split [newline, newline] cs = p # ps"
            by (cases "py_split [newline, newline] cs") auto
          have "lines_of s = [] # (d # l) # ls" using True d Cons cs L by simp
          moreover have "lines_of cs = (d # l) # ls" using d cs L by simp
          ultimately have "blocks (lines_of s) = (newline # p) # ps"
            using ih P by simp
          also have "\<dots> = py_split [newline, newline] (c # cs)"
            using True d cs P by simp
          finally show ?thesis using Cons by simp
        qed
      qed
    qed
  qed
qed


lemma line_groups_head:
  "l \<noteq> [] \<Longrightarrow> \<exists>g gs. line_groups (l # ls) = (l # g) # gs \<and> line_groups ls = g # gs"
  by (cases "line_groups ls") auto

lemma blocks_groups:
  "ls \<noteq> [] \<Longrightarrow>
     (hd ls \<noteq> [] \<longrightarrow>
        hd (blocks ls) = join_lines (hd (line_groups ls)) \<or>
        hd (blocks ls) = join_lines (hd (line_groups ls)) @ [newline]) \<and>
     nonblank (blocks ls) =
       nonblank (map join_lines (filter (\<lambda>g. g \<noteq> []) (line_groups ls)))"
proof (induction ls rule: blocks.induct)
  case 1
  then show ?case by simp
next
  case (2 l)
  then show ?case by (simp add: nonblank_def)
next
  case (3 l l' ls)
  show ?case
  proof (cases "l' = []")
    case True
    show ?thesis
    proof (cases "ls = []")
      case ls: True
      with True show ?thesis
        by (simp add: nonblank_def strip_snoc_space)
    next
      case ls: False
      from "3.IH"(1) [OF True ls ls]
      have ih: "nonblank (blocks ls) =
                  nonblank (map join_lines (filter (\<lambda>g. g \<noteq> []) (line_groups ls)))"
        by simp
      show ?thesis
      proof (cases "l = []")
        case l: True
        with True ls ih show ?thesis by (simp add: nonblank_def)
      next
        case l: False
        with True ls ih show ?thesis by (simp add: nonblank_def)
      qed
    qed
  next
    case False
    obtain b bs where B: "blocks (l' # ls) = b # bs"
      by (cases "blocks (l' # ls)") auto
    obtain g gs where G: "line_groups (l' # ls) = (l' # g) # gs"
      using line_groups_head [OF False] by blast
    from "3.IH"(2) [OF False] False B G
    have hd': "b = join_lines (l' # g) \<or> b = join_lines (l' # g) @ [newline]"
      and ih: "nonblank (b # bs) =
                 nonblank (join_lines (l' # g) # map join_lines (filter (\<lambda>g. g \<noteq> []) gs))"
      by simp_all
    have sb: "strip b = strip (join_lines (l' # g))"
      using hd' by (auto simp: strip_snoc_space)
    have tl: "nonblank bs = nonblank (map join_lines (filter (\<lambda>g. g \<noteq> []) gs))"
      using ih sb by (simp add: nonblank_def split: if_splits)
    have blk: "blocks (l # l' # ls) = (l @ newline # b) # bs"
      using False B by simp
    show ?thesis
    proof (cases "l = []")
      case True
      have "strip (newline # b) = strip b" by (simp add: strip_cons_space)
      with True False G blk ih show ?thesis
        by (simp add: nonblank_def)
    next
      case l: False
      have grp: "line_groups (l # l' # ls) = (l # l' # g) # gs"
        using l G by simp
      have j: "join_lines (l # l' # g) = l @ newline # join_lines (l' # g)"
        by simp
      have "l @ newline # b = join_lines (l # l' # g) \<or>
            l @ newline # b = join_lines (l # l' # g) @ [newline]"
        using hd' j by auto
      moreover then have "strip (l @ newline # b) = strip (join_lines (l # l' # g))"
        using strip_snoc_space [of newline "join_lines (l # l' # g)"] by auto
      ultimately show ?thesis
        using l blk grp tl by (simp add: nonblank_def del: join_lines.simps)
    qed
  qed
qed

lemma filter_long_nonblank:
  "filter (\<lambda>s. length s > 40) (map strip ss) = filter (\<lambda>s. length s > 40) (nonblank ss)"
  by (induction ss) (auto simp: nonblank_def)

lemma paragraphs_spec:
  "paragraphs body = filter (\<lambda>s. length s > 40) (map strip (spec_segments body))"
proof -
  have "nonblank (py_split [newline, newline] body) = nonblank (spec_segments body)"
    using blocks_groups [of "lines_of body"]
    by (simp add: blocks_lines_of spec_segments_def)
  then show ?thesis
    by (simp add: paragraphs_def raw_paragraphs_def filter_long_nonblank)
qed

lemma strip_idem: "strip (strip s) = strip s"
proof -
  define t where "t = dropWhile isspace s"
  define u where "u = dropWhile isspace (rev t)"
  have s: "strip s = rev u" by (simp add: strip_def t_def u_def)
  have "dropWhile isspace (rev u) = rev u"
  proof (cases "u = []")
    case True
    then show ?thesis by simp
  next
    case False
    then have "rev t \<noteq> []" by (auto simp: u_def)
    then have t: "t \<noteq> []" by simp
    have "\<exists>ys. rev t = ys @ u"
      unfolding u_def by (metis takeWhile_dropWhile_id)
    then obtain ys where "rev t = ys @ u" by blast
    with False have "last u = last (rev t)" by simp
    also have "\<dots> = hd t" using t by (simp add: last_rev)
    finally have "last u = hd t" .
    moreover have "\<not> isspace (hd t)"
      using t unfolding t_def by (rule hd_dropWhile)
    ultimately have "\<not> isspace (hd (rev u))"
      using False by (simp add: hd_rev)
    with False show ?thesis by (cases "rev u") auto
  qed
  moreover have "dropWhile isspace u = u"
    unfolding u_def by simp
  ultimately show ?thesis
    unfolding s by (simp add: strip_def)
qed

lemma paragraphs_stripped: "para \<in> set (paragraphs body) \<Longrightarrow> strip para = para"
  by (auto simp: paragraphs_def raw_paragraphs_def strip_idem)

text \<open>
  C4. The chunks of a body are the chunks of the splitting rule, with the same indices;
  the content of each chunk is trimmed and longer than 40 characters; and the indices of
  the chunks are \<open>0, 1, \<dots>, n - 1\<close> in the order of the chunks.
\<close>

theorem chunk_extraction_spec:
  "paragraphs_of body = spec_chunks body \<and>
   (\<forall>(idx, para) \<in> set (paragraphs_of body). strip para = para \<and> length (strip para) > 40) \<and>
   map fst (paragraphs_of body) = [0 ..< length (paragraphs_of body)]"
proof -
  have 1: "paragraphs_of body = spec_chunks body"
    by (simp add: paragraphs_of_def spec_chunks_def paragraphs_spec)
  have 2: "\<forall>(idx, para) \<in> set (paragraphs_of body). strip para = para \<and> length (strip para) > 40"
  proof (clarify)
    fix idx para assume "(idx, para) \<in> set (paragraphs_of body)"
    then have p: "para \<in> set (paragraphs body)"
      by (auto simp: paragraphs_of_def in_set_enumerate_eq)
    then have "length para > 40" by (simp add: paragraphs_def)
    with paragraphs_stripped [OF p] show "strip para = para \<and> length (strip para) > 40"
      by simp
  qed
  have 3: "map fst (paragraphs_of body) = [0 ..< length (paragraphs_of body)]"
    by (simp add: paragraphs_of_def)
  from 1 2 3 show ?thesis by blast
qed

theorem chunk_extraction_spec_witness:
  "paragraphs_of scenario_body = [(0, long_a)] \<and>
   spec_chunks scenario_body = [(0, long_a)] \<and>
   strip long_a = long_a \<and> length (strip long_a) = 79 \<and>
   map fst (paragraphs_of scenario_body) = [0 ..< 1]"
proof -
  have p: "paragraphs_of scenario_body = [(0, long_a)]"
    by (simp add: scenario_body_def text_defs long_a_def)
  have l: "length long_a = 79"
    by (simp add: long_a_def py_def)
  note t = chunk_extraction_spec [of scenario_body, unfolded p]
  from t have a: "spec_chunks scenario_body = [(0, long_a)]" by simp
  from t have b: "strip long_a = long_a" by simp
  show ?thesis using p a b l by simp
qed

section \<open>Facts about traces\<close>

lemma upsert_sizes_append: "upsert_sizes (xs @ ys) = upsert_sizes xs @ upsert_sizes ys"
  by (induction xs rule: upsert_sizes.induct) simp_all

lemma embed_requests_append: "embed_requests (xs @ ys) = embed_requests xs @ embed_requests ys"
  by (induction xs rule: embed_requests.induct) simp_all

lemma store_calls_append: "store_calls (xs @ ys) = store_calls xs @ store_calls ys"
  by (induction xs rule: store_calls.induct) simp_all

lemma store_calls_prints: "store_calls (map Print ms) = []"
  by (induction ms) simp_all

lemma upserted_append: "upserted (xs @ ys) = upserted xs @ upserted ys"
  by (induction xs rule: upserted.induct) simp_all

lemma upserted_prints: "upserted (map Print ms) = []"
  by (induction ms) simp_all

lemma upsert_sizes_prints: "upsert_sizes (map Print ms) = []"
  by (induction ms) simp_all

lemma embed_requests_prints: "embed_requests (map Print ms) = []"
  by (induction ms) simp_all

lemmas obs_simps =
  upsert_sizes_append embed_requests_append store_calls_append upserted_append
  store_calls_prints upsert_sizes_prints embed_requests_prints upserted_prints

lemma trace_emit [simp]: "trace (emit e w) = trace w @ [e]"
  by (simp add: emit_def)

lemma emit_fields [simp]:
  "ollama (emit e w) = ollama w" "collections (emit e w) = collections w"
  "faults (emit e w) = faults w" "counts_vectors (emit e w) = counts_vectors w"
  by (simp_all add: emit_def)

lemma embedding_of_eq: "ollama w1 = ollama w \<Longrightarrow> embedding_of w1 = embedding_of w"
  by (auto simp: embedding_of_def fun_eq_iff)

lemma answers_eq: "ollama w1 = ollama w \<Longrightarrow> answers w1 = answers w"
  by (auto simp: answers_def fun_eq_iff)

lemma get_embedding_value:
  "get_embedding prompt w = (Inr emb, w1) \<Longrightarrow>
     emb = embedding_of w prompt \<and> ollama w1 = ollama w"
  by (auto simp: get_embedding_def embedding_of_def emit_def Let_def split: ollama_reply.splits)

lemma get_embedding_answers:
  "answers w prompt \<Longrightarrow>
     \<exists>v. get_embedding prompt w = (Inr v, emit (EmbedRequest prompt) w)"
  by (auto simp: get_embedding_def answers_def emit_def Let_def split: ollama_reply.splits)

lemma upsert_ollama: "upsert name pts w = (r, w1) \<Longrightarrow> ollama w1 = ollama w"
  by (auto simp: upsert_def take_fault_def emit_def split: list.splits option.splits)

lemma recreate_collection_ollama:
  "recreate_collection name d m w = (r, w1) \<Longrightarrow> ollama w1 = ollama w"
  by (auto simp: recreate_collection_def take_fault_def emit_def split: list.splits option.splits)

lemma get_collection_ollama: "get_collection name w = (r, w1) \<Longrightarrow> ollama w1 = ollama w"
  by (auto simp: get_collection_def take_fault_def emit_def split: list.splits option.splits)

lemma get_embedding_trace:
  "get_embedding prompt w = (r, w1) \<Longrightarrow> trace w1 = trace w @ [EmbedRequest prompt]"
  by (auto simp: get_embedding_def Let_def split: ollama_reply.splits)

lemma upsert_trace:
  "upsert name pts w = (r, w1) \<Longrightarrow> trace w1 = trace w @ [Upsert name pts]"
  by (auto simp: upsert_def take_fault_def emit_def split: list.splits option.splits)

lemma get_collection_trace:
  "get_collection name w = (r, w1) \<Longrightarrow> trace w1 = trace w @ [GetCollection name]"
  by (auto simp: get_collection_def take_fault_def emit_def split: list.splits option.splits)

lemma recreate_collection_trace:
  "recreate_collection name d m w = (r, w1) \<Longrightarrow>
     trace w1 = trace w @ [RecreateCollection name d m]"
  by (auto simp: recreate_collection_def take_fault_def emit_def split: list.splits option.splits)

lemma count_paragraphs_eq:
  "count_paragraphs gen w =
     (length (yielded gen), w\<lparr>trace := trace w @ map Print (notices gen)\<rparr>)"
  by (induction gen w rule: count_paragraphs.induct) (simp_all add: emit_def)

lemma next_paragraph_none:
  "next_paragraph gen w = (None, w1) \<Longrightarrow> yielded gen = []"
  by (induction gen w rule: next_paragraph.induct) simp_all

lemma next_paragraph_some:
  "next_paragraph gen w = (Some ((path, idx, para), rest), w1) \<Longrightarrow>
     yielded gen = (path, idx, para) # yielded rest \<and>
     upsert_sizes (trace w1) = upsert_sizes (trace w) \<and>
     embed_requests (trace w1) = embed_requests (trace w) \<and>
     upserted (trace w1) = upserted (trace w)"
  by (induction gen w rule: next_paragraph.induct) (auto simp: obs_simps)

lemma next_paragraph_fields:
  "next_paragraph gen w = (nx, w1) \<Longrightarrow>
     faults w1 = faults w \<and> collections w1 = collections w \<and> ollama w1 = ollama w"
  by (induction gen w rule: next_paragraph.induct) auto

lemma next_paragraph_yielded:
  "yielded gen \<noteq> [] \<Longrightarrow>
     \<exists>path idx para rest w1. next_paragraph gen w = (Some ((path, idx, para), rest), w1) \<and>
        yielded gen = (path, idx, para) # yielded rest"
  by (induction gen w rule: next_paragraph.induct) auto

section \<open>An empty corpus\<close>

lemma main_empty:
  assumes "text_dir a = Some tree" and "chunks tree = []"
  shows "main a w =
           (Returned,
            w\<lparr>trace := trace w @ map Print (notices (iter_paragraphs tree)) @
                          [Print NoParagraphsFound]\<rparr>)"
  using assms by (simp add: main_def count_paragraphs_eq chunks_def emit_def)

text \<open>
  C7. A corpus without chunks: \<open>main\<close> returns normally, the world is as before but for
  the printed lines (the notices about unreadable files, then that no paragraphs were
  found), no call goes to the vector store and none to the embedding endpoint.
\<close>

theorem empty_corpus_no_store_calls:
  assumes "text_dir a = Some tree" and "chunks tree = []"
  shows "main a w =
           (Returned,
            w\<lparr>trace := trace w @ map Print (notices (iter_paragraphs tree)) @
                          [Print NoParagraphsFound]\<rparr>) \<and>
         store_calls (trace (snd (main a w))) = store_calls (trace w) \<and>
         embed_requests (trace (snd (main a w))) = embed_requests (trace w)"
  unfolding main_empty [OF assms] by (simp add: obs_simps)

lemma short_chunks: "chunks short_corpus = []"
  by (simp add: chunks_def short_corpus_def text_defs)

theorem empty_corpus_no_store_calls_witness:
  "text_dir short_args = Some short_corpus \<and> chunks short_corpus = [] \<and>
   main short_args fresh_world =
     (Returned,
      fresh_world\<lparr>trace :=
        [Print (FailedToRead (py ''b.txt'') (Exn ''PermissionError'' ''denied'')),
         Print NoParagraphsFound]\<rparr>) \<and>
   store_calls (trace (snd (main short_args fresh_world))) = []"
proof -
  have h1: "text_dir short_args = Some short_corpus"
    by (simp add: short_args_def)
  have t: "trace fresh_world = []"
    by (simp add: fresh_world_def)
  have n: "notices (iter_paragraphs short_corpus) =
             [FailedToRead (py ''b.txt'') (Exn ''PermissionError'' ''denied'')]"
    by (simp add: short_corpus_def text_defs)
  show ?thesis
    using h1 short_chunks empty_corpus_no_store_calls [OF h1 short_chunks, of fresh_world] t n
    by simp
qed

section \<open>The indexing loop\<close>

lemma index_loop_upserts:
  assumes "index_loop a items pid buf w = (Inr buf', w')"
    and "0 < B" and "batch_size a = int B" and "length buf < B"
  shows "upsert_sizes (trace w') =
           upsert_sizes (trace w) @
           replicate ((length buf + length (stream_texts items)) div B) B \<and>
         length buf' = (length buf + length (stream_texts items)) mod B"
  using assms
proof (induction items arbitrary: pid buf w)
  case Nil
  then show ?case by simp
next
  case (Cons it items)
  show ?case
  proof (cases it)
    case (Printed m)
    with Cons.prems have "index_loop a items pid buf (emit (Print m) w) = (Inr buf', w')"
      by simp
    from Cons.IH [OF this Cons.prems(2,3,4)] Printed show ?thesis
      by (simp add: upsert_sizes_append)
  next
    case (Yielded path idx para maybe_emb)
    obtain r w1 where
      e: "(case maybe_emb of None \<Rightarrow> get_embedding para w | Some emb \<Rightarrow> (Inr emb, w)) = (r, w1)"
      by (cases "(case maybe_emb of None \<Rightarrow> get_embedding para w | Some emb \<Rightarrow> (Inr emb, w))")
    have t1: "upsert_sizes (trace w1) = upsert_sizes (trace w)"
      using e by (cases maybe_emb) (auto dest: get_embedding_trace simp: upsert_sizes_append)
    from Cons.prems(1) Yielded e obtain emb where r: "r = Inr emb"
      by (cases r) auto
    let ?buf1 = "buf @ [make_point pid emb path idx para]"
    show ?thesis
    proof (cases "int (length ?buf1) \<ge> batch_size a")
      case True
      then have full: "length buf + 1 = B" using Cons.prems(3,4) by simp
      obtain r2 w2 where u: "upsert (collection a) ?buf1 w1 = (r2, w2)"
        by (cases "upsert (collection a) ?buf1 w1")
      from Cons.prems(1) Yielded e r True u obtain uu where r2: "r2 = Inr uu"
        by (cases r2) (auto simp: Let_def)
      from Cons.prems(1) Yielded e r True u r2
      have loop: "index_loop a items (Suc pid) []
                    (emit (Print (Upserted (length ?buf1) path)) w2) = (Inr buf', w')"
        by (simp add: Let_def)
      have t2: "upsert_sizes (trace (emit (Print (Upserted (length ?buf1) path)) w2)) =
                  upsert_sizes (trace w) @ [B]"
        using upsert_trace [OF u] t1 full by (simp add: upsert_sizes_append)
      have "length ([]::point list) < B" using Cons.prems(2) by simp
      from Cons.IH [OF loop Cons.prems(2,3) this] t2
      have "upsert_sizes (trace w') =
              upsert_sizes (trace w) @ [B] @ replicate (length (stream_texts items) div B) B"
        and "length buf' = length (stream_texts items) mod B" by simp_all
      moreover have "length buf + length (stream_texts (it # items)) =
                       B + length (stream_texts items)"
        using full Yielded by simp
      ultimately show ?thesis using Cons.prems(2) by simp
    next
      case False
      then have small: "length ?buf1 < B" using Cons.prems(3) by simp
      from Cons.prems(1) Yielded e r False
      have loop: "index_loop a items (Suc pid) ?buf1 w1 = (Inr buf', w')"
        by (simp add: Let_def)
      from Cons.IH [OF loop Cons.prems(2,3) small] t1 Yielded show ?thesis by simp
    qed
  qed
qed

lemma index_loop_requests:
  assumes "index_loop a items pid buf w = (Inr buf', w')"
  shows "embed_requests (trace w') = embed_requests (trace w) @ fresh_texts items"
  using assms
proof (induction a items pid buf w rule: index_loop.induct)
  case (1 a pid buffer w)
  then show ?case by simp
next
  case (2 a m rest pid buffer w)
  then show ?case by (simp add: embed_requests_append)
next
  case (3 a path idx para maybe_emb rest pid buffer w)
  obtain r w1 where
    e: "(case maybe_emb of None \<Rightarrow> get_embedding para w | Some emb \<Rightarrow> (Inr emb, w)) = (r, w1)"
    by (cases "(case maybe_emb of None \<Rightarrow> get_embedding para w | Some emb \<Rightarrow> (Inr emb, w))")
  from "3.prems" e obtain emb where r: "r = Inr emb"
    by (cases r) auto
  have t1: "embed_requests (trace w1) =
              embed_requests (trace w) @ (case maybe_emb of None \<Rightarrow> [para] | Some v \<Rightarrow> [])"
    using e by (cases maybe_emb) (auto dest: get_embedding_trace simp: embed_requests_append)
  let ?buf1 = "buffer @ [make_point pid emb path idx para]"
  show ?case
  proof (cases "int (length ?buf1) \<ge> batch_size a")
    case True
    obtain r2 w2 where u: "upsert (collection a) ?buf1 w1 = (r2, w2)"
      by (cases "upsert (collection a) ?buf1 w1")
    from "3.prems" e r True u obtain uu where r2: "r2 = Inr uu"
      by (cases r2) (auto simp: Let_def)
    from "3.prems" e r True u r2
    have loop: "index_loop a rest (Suc pid) []
                  (emit (Print (Upserted (length ?buf1) path)) w2) = (Inr buf', w')"
      by (simp add: Let_def)
    have "embed_requests (trace w') =
            embed_requests (trace (emit (Print (Upserted (length ?buf1) path)) w2)) @
            fresh_texts rest"
      using "3.IH"(1) [OF e [symmetric] r refl True u [symmetric] r2 loop] .
    then show ?thesis
      using upsert_trace [OF u] t1 by (cases maybe_emb) (simp_all add: embed_requests_append)
  next
    case False
    from "3.prems" e r False
    have loop: "index_loop a rest (Suc pid) ?buf1 w1 = (Inr buf', w')"
      by (simp add: Let_def)
    have "embed_requests (trace w') = embed_requests (trace w1) @ fresh_texts rest"
      using "3.IH"(2) [OF e [symmetric] r refl False loop] .
    then show ?thesis using t1 by (cases maybe_emb) simp_all
  qed
qed

lemma index_loop_points:
  assumes "index_loop a items pid buf w = (Inr buf', w')"
  shows "upserted (trace w') @ buf' =
           upserted (trace w) @ buf @ stream_points (embedding_of w) pid items \<and>
         ollama w' = ollama w"
  using assms
proof (induction items arbitrary: pid buf w)
  case Nil
  then show ?case by simp
next
  case (Cons it items)
  show ?case
  proof (cases it)
    case (Printed m)
    with Cons.prems have l: "index_loop a items pid buf (emit (Print m) w) = (Inr buf', w')"
      by simp
    have "embedding_of (emit (Print m) w) = embedding_of w"
      by (rule embedding_of_eq) simp
    with Cons.IH [OF l] Printed show ?thesis
      by (simp add: upserted_append)
  next
    case (Yielded path idx para maybe_emb)
    obtain r w1 where
      e: "(case maybe_emb of None \<Rightarrow> get_embedding para w | Some emb \<Rightarrow> (Inr emb, w)) = (r, w1)"
      by (cases "(case maybe_emb of None \<Rightarrow> get_embedding para w | Some emb \<Rightarrow> (Inr emb, w))")
    from Cons.prems(1) Yielded e obtain emb where r: "r = Inr emb"
      by (cases r) auto
    have "emb = (case maybe_emb of None \<Rightarrow> embedding_of w para | Some emb \<Rightarrow> emb) \<and>
          ollama w1 = ollama w \<and> upserted (trace w1) = upserted (trace w)"
    proof (cases maybe_emb)
      case None
      with e r have g: "get_embedding para w = (Inr emb, w1)" by simp
      from get_embedding_value [OF g] get_embedding_trace [OF g] None show ?thesis
        by (simp add: upserted_append)
    next
      case (Some x)
      with e r show ?thesis by simp
    qed
    then have v: "emb = (case maybe_emb of None \<Rightarrow> embedding_of w para | Some emb \<Rightarrow> emb)"
      and o1: "ollama w1 = ollama w" and t1: "upserted (trace w1) = upserted (trace w)"
      by blast+
    let ?pt = "make_point pid emb path idx para"
    let ?buf1 = "buf @ [?pt]"
    have sp: "stream_points (embedding_of w) pid (it # items) =
                ?pt # stream_points (embedding_of w) (Suc pid) items"
      using Yielded v by simp
    show ?thesis
    proof (cases "int (length ?buf1) \<ge> batch_size a")
      case True
      obtain r2 w2 where u: "upsert (collection a) ?buf1 w1 = (r2, w2)"
        by (cases "upsert (collection a) ?buf1 w1")
      from Cons.prems(1) Yielded e r True u obtain uu where r2: "r2 = Inr uu"
        by (cases r2) (auto simp: Let_def)
      let ?w3 = "emit (Print (Upserted (length ?buf1) path)) w2"
      from Cons.prems(1) Yielded e r True u r2
      have loop: "index_loop a items (Suc pid) [] ?w3 = (Inr buf', w')"
        by (simp add: Let_def)
      have o3: "ollama ?w3 = ollama w" using upsert_ollama [OF u] o1 by simp
      have t3: "upserted (trace ?w3) = upserted (trace w) @ ?buf1"
        using upsert_trace [OF u] t1 by (simp add: upserted_append)
      have eo3: "embedding_of ?w3 = embedding_of w" by (rule embedding_of_eq [OF o3])
      from Cons.IH [OF loop]
      have "upserted (trace w') @ buf' =
              upserted (trace ?w3) @ stream_points (embedding_of w) (Suc pid) items"
        and "ollama w' = ollama w"
        unfolding eo3 o3 by simp_all
      with t3 sp show ?thesis by simp
    next
      case False
      from Cons.prems(1) Yielded e r False
      have loop: "index_loop a items (Suc pid) ?buf1 w1 = (Inr buf', w')"
        by (simp add: Let_def)
      have eo1: "embedding_of w1 = embedding_of w" by (rule embedding_of_eq [OF o1])
      from Cons.IH [OF loop]
      have "upserted (trace w') @ buf' =
              upserted (trace w1) @ ?buf1 @ stream_points (embedding_of w) (Suc pid) items"
        and "ollama w' = ollama w"
        unfolding eo1 o1 by simp_all
      with t1 sp show ?thesis by simp
    qed
  qed
qed

section \<open>The whole run\<close>

lemma ensure_collection_quiet:
  assumes "ensure_collection name d m w = (r, w1)"
  shows "upsert_sizes (trace w1) = upsert_sizes (trace w) \<and>
         embed_requests (trace w1) = embed_requests (trace w) \<and>
         upserted (trace w1) = upserted (trace w) \<and> ollama w1 = ollama w"
proof -
  obtain r0 w0 where g: "get_collection name w = (r0, w0)"
    by (cases "get_collection name w")
  note t0 = get_collection_trace [OF g] get_collection_ollama [OF g]
  show ?thesis
  proof (cases r0)
    case (Inl e)
    with assms g t0 show ?thesis
      by (auto simp: ensure_collection_def obs_simps)
  next
    case (Inr existing)
    show ?thesis
    proof (cases "existing_dim existing")
      case (Inl e)
      with assms g t0 Inr show ?thesis
        by (auto simp: ensure_collection_def obs_simps)
    next
      case d: (Inr d')
      show ?thesis
      proof (cases "d' = d")
        case True
        with assms g t0 Inr d show ?thesis
          by (auto simp: ensure_collection_def obs_simps)
      next
        case False
        with assms g Inr d
        have "recreate_collection name d m (emit (Print (Recreating name d)) w0) = (r, w1)"
          by (simp add: ensure_collection_def)
        from recreate_collection_trace [OF this] recreate_collection_ollama [OF this] t0
        show ?thesis by (simp add: obs_simps)
      qed
    qed
  qed
qed

lemma create_or_check_quiet:
  assumes "create_or_check name d w = (r, w1)"
  shows "upsert_sizes (trace w1) = upsert_sizes (trace w) \<and>
         embed_requests (trace w1) = embed_requests (trace w) \<and>
         upserted (trace w1) = upserted (trace w) \<and> ollama w1 = ollama w"
proof -
  obtain r0 w0 where g: "ensure_collection name d COSINE w = (r0, w0)"
    by (cases "ensure_collection name d COSINE w")
  note q = ensure_collection_quiet [OF g]
  show ?thesis
  proof (cases r0)
    case (Inl e)
    with assms g
    have "recreate_collection name d COSINE (emit (Print (Creating name d)) w0) = (r, w1)"
      by (simp add: create_or_check_def)
    from recreate_collection_trace [OF this] recreate_collection_ollama [OF this] q
    show ?thesis by (simp add: obs_simps)
  next
    case (Inr u)
    with assms g q show ?thesis by (simp add: create_or_check_def)
  qed
qed

lemma flush_final_trace:
  assumes "flush_final a buf w = (Returned, w1)"
  shows "upsert_sizes (trace w1) =
           upsert_sizes (trace w) @ (if buf = [] then [] else [length buf]) \<and>
         embed_requests (trace w1) = embed_requests (trace w) \<and>
         upserted (trace w1) = upserted (trace w) @ buf"
proof (cases "buf = []")
  case True
  with assms show ?thesis
    by (auto simp: flush_final_def obs_simps)
next
  case False
  obtain r2 w2 where u: "upsert (collection a) buf w = (r2, w2)"
    by (cases "upsert (collection a) buf w")
  with assms False
  have "w1 = emit (Print IndexingComplete) (emit (Print (UpsertedFinal (length buf))) w2)"
    by (cases r2) (auto simp: flush_final_def)
  with upsert_trace [OF u] False show ?thesis
    by (simp add: obs_simps)
qed

lemma stream_texts_rest:
  "stream_texts (map rest_item gen) = map (\<lambda>(path, idx, para). para) (yielded gen)"
  by (induction gen rule: yielded.induct) simp_all

lemma stream_points_rest:
  "stream_points f pid (map rest_item gen) = chunk_points f pid (yielded gen)"
  by (induction gen arbitrary: pid rule: yielded.induct) simp_all

lemma fresh_texts_rest:
  "fresh_texts (map rest_item gen) = map (\<lambda>(path, idx, para). para) (yielded gen)"
  by (induction gen rule: yielded.induct) simp_all

text \<open>A run that returns after the peek went through every step without an exception.\<close>

lemma index_from_steps:
  assumes "index_from a gen w = (Returned, w')" and "yielded gen \<noteq> []"
  obtains path idx para rest w1 emb w2 w3 buf w4 where
    "next_paragraph gen w = (Some ((path, idx, para), rest), w1)"
    "get_embedding para (emit (Print (GettingDimension path)) w1) = (Inr emb, w2)"
    "create_or_check (collection a) (length emb)
       (emit (Print (EmbeddingDimension (length emb))) w2) = (Inr (), w3)"
    "index_loop a (all_paragraphs path idx para emb rest) 0 [] w3 = (Inr buf, w4)"
    "flush_final a buf w4 = (Returned, w')"
proof -
  obtain nx w1 where n: "next_paragraph gen w = (nx, w1)"
    by (cases "next_paragraph gen w")
  from n assms(2) obtain x where nx: "nx = Some x"
    by (cases nx) (auto dest: next_paragraph_none)
  obtain path idx para rest where x: "x = ((path, idx, para), rest)"
    by (cases x) auto
  obtain r2 w2 where g: "get_embedding para (emit (Print (GettingDimension path)) w1) = (r2, w2)"
    by (cases "get_embedding para (emit (Print (GettingDimension path)) w1)")
  from assms(1) n nx x g obtain emb where r2: "r2 = Inr emb"
    by (cases r2) (auto simp: index_from_def)
  obtain r3 w3 where c: "create_or_check (collection a) (length emb)
                           (emit (Print (EmbeddingDimension (length emb))) w2) = (r3, w3)"
    by (cases "create_or_check (collection a) (length emb)
                 (emit (Print (EmbeddingDimension (length emb))) w2)")
  from assms(1) n nx x g r2 c have r3: "r3 = Inr ()"
    by (cases r3) (auto simp: index_from_def)
  obtain r4 w4 where l: "index_loop a (all_paragraphs path idx para emb rest) 0 [] w3 = (r4, w4)"
    by (cases "index_loop a (all_paragraphs path idx para emb rest) 0 [] w3")
  from assms(1) n nx x g r2 c r3 l obtain buf where r4: "r4 = Inr buf"
    by (cases r4) (auto simp: index_from_def)
  from assms(1) n nx x g r2 c r3 l r4 have f: "flush_final a buf w4 = (Returned, w')"
    by (simp add: index_from_def)
  from that [OF n [unfolded nx x] g [unfolded r2] c [unfolded r3] l [unfolded r4] f]
  show thesis .
qed

lemma index_from_requests:
  assumes "index_from a gen w = (Returned, w')" and "yielded gen \<noteq> []"
  shows "embed_requests (trace w') =
           embed_requests (trace w) @ map (\<lambda>(path, idx, para). para) (yielded gen)"
proof -
  from index_from_steps [OF assms] obtain path idx para rest w1 emb w2 w3 buf w4 where
    n: "next_paragraph gen w = (Some ((path, idx, para), rest), w1)" and
    g: "get_embedding para (emit (Print (GettingDimension path)) w1) = (Inr emb, w2)" and
    c: "create_or_check (collection a) (length emb)
          (emit (Print (EmbeddingDimension (length emb))) w2) = (Inr (), w3)" and
    l: "index_loop a (all_paragraphs path idx para emb rest) 0 [] w3 = (Inr buf, w4)" and
    f: "flush_final a buf w4 = (Returned, w')"
    by blast
  note np = next_paragraph_some [OF n]
  have t2: "embed_requests (trace w2) = embed_requests (trace w) @ [para]"
    using get_embedding_trace [OF g] np by (simp add: obs_simps)
  have t3: "embed_requests (trace w3) = embed_requests (trace w) @ [para]"
    using create_or_check_quiet [OF c] t2 by (simp add: obs_simps)
  have t4: "embed_requests (trace w4) =
              embed_requests (trace w) @ map (\<lambda>(path, idx, para). para) (yielded gen)"
    using index_loop_requests [OF l] t3 np
    by (simp add: all_paragraphs_def fresh_texts_rest)
  from flush_final_trace [OF f] t4 show ?thesis by simp
qed

lemma index_from_upserts:
  assumes "index_from a gen w = (Returned, w')" and "yielded gen \<noteq> []"
    and "1 \<le> batch_size a"
  shows "upsert_sizes (trace w') =
           upsert_sizes (trace w) @ batches (length (yielded gen)) (nat (batch_size a))"
proof -
  let ?B = "nat (batch_size a)"
  let ?N = "length (yielded gen)"
  have B: "0 < ?B" "batch_size a = int ?B" using assms(3) by simp_all
  from index_from_steps [OF assms(1,2)] obtain path idx para rest w1 emb w2 w3 buf w4 where
    n: "next_paragraph gen w = (Some ((path, idx, para), rest), w1)" and
    g: "get_embedding para (emit (Print (GettingDimension path)) w1) = (Inr emb, w2)" and
    c: "create_or_check (collection a) (length emb)
          (emit (Print (EmbeddingDimension (length emb))) w2) = (Inr (), w3)" and
    l: "index_loop a (all_paragraphs path idx para emb rest) 0 [] w3 = (Inr buf, w4)" and
    f: "flush_final a buf w4 = (Returned, w')"
    by blast
  note np = next_paragraph_some [OF n]
  have N: "length (stream_texts (all_paragraphs path idx para emb rest)) = ?N"
    using np by (simp add: all_paragraphs_def stream_texts_rest)
  have t2: "upsert_sizes (trace w2) = upsert_sizes (trace w)"
    using get_embedding_trace [OF g] np by (simp add: obs_simps)
  have t3: "upsert_sizes (trace w3) = upsert_sizes (trace w)"
    using create_or_check_quiet [OF c] t2 by (simp add: obs_simps)
  have "length ([]::point list) < ?B" using B by simp
  from index_loop_upserts [OF l B(1) B(2) this] N t3
  have t4: "upsert_sizes (trace w4) = upsert_sizes (trace w) @ replicate (?N div ?B) ?B"
    and b: "length buf = ?N mod ?B" by simp_all
  have "(buf = []) = (?N mod ?B = 0)" using b by (metis length_0_conv)
  with flush_final_trace [OF f] t4 b show ?thesis
    by (simp add: batches_def)
qed

lemma index_from_points:
  assumes "index_from a gen w = (Returned, w')" and "yielded gen \<noteq> []"
  shows "upserted (trace w') =
           upserted (trace w) @ chunk_points (embedding_of w) 0 (yielded gen)"
proof -
  from index_from_steps [OF assms] obtain path idx para rest w1 emb w2 w3 buf w4 where
    n: "next_paragraph gen w = (Some ((path, idx, para), rest), w1)" and
    g: "get_embedding para (emit (Print (GettingDimension path)) w1) = (Inr emb, w2)" and
    c: "create_or_check (collection a) (length emb)
          (emit (Print (EmbeddingDimension (length emb))) w2) = (Inr (), w3)" and
    l: "index_loop a (all_paragraphs path idx para emb rest) 0 [] w3 = (Inr buf, w4)" and
    f: "flush_final a buf w4 = (Returned, w')"
    by blast
  note np = next_paragraph_some [OF n]
  note nf = next_paragraph_fields [OF n]
  have o2: "ollama w2 = ollama w" and v: "emb = embedding_of w para"
    using get_embedding_value [OF g] nf
    by (simp_all add: embedding_of_eq [of "emit (Print (GettingDimension path)) w1" w])
  have t2: "upserted (trace w2) = upserted (trace w)"
    using get_embedding_trace [OF g] np by (simp add: obs_simps)
  have o3: "ollama w3 = ollama w" and t3: "upserted (trace w3) = upserted (trace w)"
    using create_or_check_quiet [OF c] o2 t2 by (simp_all add: obs_simps)
  have e3: "embedding_of w3 = embedding_of w" by (rule embedding_of_eq [OF o3])
  have "upserted (trace w4) @ buf =
          upserted (trace w) @ chunk_points (embedding_of w) 0 (yielded gen)"
    using index_loop_points [OF l] t3 np v
    by (simp add: e3 all_paragraphs_def stream_points_rest)
  with flush_final_trace [OF f] show ?thesis by simp
qed

lemma main_nonempty:
  assumes "text_dir a = Some tree" and "chunks tree \<noteq> []"
  shows "main a w =
           index_from a (iter_paragraphs tree)
             (emit (Print (FoundParagraphs (length (chunks tree))))
                (w\<lparr>trace := trace w @ map Print (notices (iter_paragraphs tree))\<rparr>))"
  using assms by (simp add: main_def count_paragraphs_eq chunks_def)

lemma main_requests:
  assumes "text_dir a = Some tree" and "fst (main a w) = Returned"
  shows "embed_requests (trace (snd (main a w))) =
           embed_requests (trace w) @ map (\<lambda>(path, idx, para). para) (chunks tree)"
proof (cases "chunks tree = []")
  case True
  then show ?thesis unfolding main_empty [OF assms(1) True] by (simp add: obs_simps)
next
  case False
  note m = main_nonempty [OF assms(1) False, of w]
  obtain w' where i: "main a w = (Returned, w')"
    using assms(2) by (cases "main a w") auto
  from index_from_requests [OF i [unfolded m]] False i show ?thesis
    by (simp add: chunks_def obs_simps)
qed

lemma main_upserts:
  assumes "text_dir a = Some tree" and "fst (main a w) = Returned" and "1 \<le> batch_size a"
  shows "upsert_sizes (trace (snd (main a w))) =
           upsert_sizes (trace w) @ batches (length (chunks tree)) (nat (batch_size a))"
proof (cases "chunks tree = []")
  case True
  then show ?thesis unfolding main_empty [OF assms(1) True]
    by (simp add: obs_simps batches_def)
next
  case False
  note m = main_nonempty [OF assms(1) False, of w]
  obtain w' where i: "main a w = (Returned, w')"
    using assms(2) by (cases "main a w") auto
  from index_from_upserts [OF i [unfolded m] _ assms(3)] False i show ?thesis
    by (simp add: chunks_def obs_simps)
qed

lemma main_points:
  assumes "text_dir a = Some tree" and "fst (main a w) = Returned"
  shows "upserted (trace (snd (main a w))) =
           upserted (trace w) @ chunk_points (embedding_of w) 0 (chunks tree)"
proof (cases "chunks tree = []")
  case True
  then show ?thesis unfolding main_empty [OF assms(1) True] by (simp add: obs_simps)
next
  case False
  let ?w1 = "emit (Print (FoundParagraphs (length (chunks tree))))
               (w\<lparr>trace := trace w @ map Print (notices (iter_paragraphs tree))\<rparr>)"
  note m = main_nonempty [OF assms(1) False, of w]
  obtain w' where i: "main a w = (Returned, w')"
    using assms(2) by (cases "main a w") auto
  have "embedding_of ?w1 = embedding_of w" by (rule embedding_of_eq) simp
  with index_from_points [OF i [unfolded m]] False i show ?thesis
    by (simp add: chunks_def obs_simps)
qed

section \<open>Batches\<close>

lemma length_batches:
  assumes "0 < b"
  shows "length (batches n b) = (n + b - 1) div b"
proof -
  define q r where "q = n div b" and "r = n mod b"
  have n: "n = q * b + r" and r: "r < b"
    using assms by (simp_all add: q_def r_def)
  show ?thesis
  proof (cases "r = 0")
    case True
    then have "n + b - 1 = q * b + (b - 1)" using n assms by simp
    moreover have "b - 1 < b" using assms by simp
    ultimately have "(n + b - 1) div b = q"
      using assms by (metis div_mult_self3 div_less add.right_neutral less_numeral_extra(3))
    with True show ?thesis by (simp add: batches_def q_def r_def)
  next
    case False
    then have "n + b - 1 = Suc q * b + (r - 1)" using n by simp
    moreover have "r - 1 < b" using r by simp
    ultimately have "(n + b - 1) div b = Suc q"
      using assms by (metis div_mult_self3 div_less add.right_neutral less_numeral_extra(3))
    with False show ?thesis by (simp add: batches_def q_def r_def)
  qed
qed

lemma nth_batches: "Suc i < length (batches n b) \<Longrightarrow> batches n b ! i = b"
  by (auto simp: batches_def nth_append split: if_splits)

lemma last_batches:
  assumes "0 < b" and "0 < n"
  shows "last (batches n b) = (if n mod b = 0 then b else n mod b)"
proof (cases "n mod b = 0")
  case True
  then have "b \<le> n" using assms by (metis mod_less neq0_conv not_le)
  then have "0 < n div b" using assms by (simp add: div_greater_zero_iff)
  with True show ?thesis by (simp add: batches_def)
next
  case False
  then show ?thesis by (simp add: batches_def)
qed

lemma small_gen:
  "iter_paragraphs small_corpus =
     [Para (py ''a.txt'') 0 long_a, Para (py ''a.txt'') 1 long_b, Para (py ''b.txt'') 0 long_c]"
  by (simp add: small_corpus_def text_defs long_a_def long_b_def long_c_def)

lemma small_chunks:
  "chunks small_corpus =
     [(py ''a.txt'', 0, long_a), (py ''a.txt'', 1, long_b), (py ''b.txt'', 0, long_c)]"
  by (simp add: chunks_def small_gen)

lemma small_run:
  "fst (main small_args fresh_world) = Returned"
  "upsert_sizes (trace (snd (main small_args fresh_world))) = [2, 1]"
  "embed_requests (trace (snd (main small_args fresh_world))) = [long_a, long_b, long_c]"
  by (simp_all add: small_args_def small_gen fresh_world_def run_defs Let_def)

text \<open>
  C5. A run over a corpus of \<open>N \<ge> 1\<close> chunks with batch size \<open>B \<ge> 1\<close> that returns has
  issued \<open>ceil(N/B)\<close> upserts; each but the last carries \<open>B\<close> points and the last carries
  \<open>N mod B\<close> points, or \<open>B\<close> when \<open>B\<close> divides \<open>N\<close>. (The run starts from an empty trace,
  so that the trace holds the calls of this run only.)
\<close>

theorem upsert_batches:
  assumes "text_dir a = Some tree" and "trace w = []" and "1 \<le> batch_size a"
    and "chunks tree \<noteq> []" and "fst (main a w) = Returned"
  shows "length (upsert_sizes (trace (snd (main a w)))) =
           (length (chunks tree) + nat (batch_size a) - 1) div nat (batch_size a) \<and>
         (\<forall>i. Suc i < length (upsert_sizes (trace (snd (main a w)))) \<longrightarrow>
              upsert_sizes (trace (snd (main a w))) ! i = nat (batch_size a)) \<and>
         last (upsert_sizes (trace (snd (main a w)))) =
           (if length (chunks tree) mod nat (batch_size a) = 0 then nat (batch_size a)
            else length (chunks tree) mod nat (batch_size a))"
proof -
  have u: "upsert_sizes (trace (snd (main a w))) =
             batches (length (chunks tree)) (nat (batch_size a))"
    using main_upserts [OF assms(1,5,3)] assms(2) by simp
  have B: "0 < nat (batch_size a)" using assms(3) by simp
  have N: "0 < length (chunks tree)" using assms(4) by simp
  show ?thesis
    unfolding u using length_batches [OF B] nth_batches last_batches [OF B N] by blast
qed

theorem upsert_batches_witness:
  "text_dir small_args = Some small_corpus \<and> trace fresh_world = [] \<and>
   1 \<le> batch_size small_args \<and> chunks small_corpus \<noteq> [] \<and>
   fst (main small_args fresh_world) = Returned \<and>
   length (chunks small_corpus) = 3 \<and> nat (batch_size small_args) = 2 \<and>
   length (upsert_sizes (trace (snd (main small_args fresh_world)))) = 2 \<and>
   upsert_sizes (trace (snd (main small_args fresh_world))) ! 0 = 2 \<and>
   last (upsert_sizes (trace (snd (main small_args fresh_world)))) = 1"
proof -
  have h1: "text_dir small_args = Some small_corpus" by (simp add: small_args_def)
  have h2: "trace fresh_world = []" by (simp add: fresh_world_def)
  have h3: "1 \<le> batch_size small_args" by (simp add: small_args_def)
  have h4: "chunks small_corpus \<noteq> []" by (simp add: small_chunks)
  have h5: "fst (main small_args fresh_world) = Returned" by (rule small_run(1))
  have n: "length (chunks small_corpus) = 3" by (simp add: small_chunks)
  have b: "nat (batch_size small_args) = 2" by (simp add: small_args_def)
  show ?thesis
    using upsert_batches [OF h1 h2 h3 h4 h5] h1 h2 h3 h4 h5 n b by simp
qed

lemma chunk_points_ids:
  "map p_id (chunk_points f pid cs) = [pid ..< pid + length cs]"
proof (induction f pid cs rule: chunk_points.induct)
  case (1 f pid)
  then show ?case by simp
next
  case (2 f pid path idx para rest)
  have "[pid ..< pid + length ((path, idx, para) # rest)] =
          pid # [Suc pid ..< Suc pid + length rest]"
    using upt_conv_Cons [of pid "pid + length ((path, idx, para) # rest)"] by simp
  with 2 show ?case by (simp add: make_point_def)
qed

lemma chunk_points_vectors:
  "map p_vector (chunk_points f pid cs) = map (\<lambda>(path, idx, para). f para) cs"
  by (induction f pid cs rule: chunk_points.induct) (simp_all add: make_point_def)

lemma chunk_points_payloads:
  "map p_payload (chunk_points f pid cs) =
     map (\<lambda>(path, idx, para).
            [(py ''file'', PyStr path), (py ''paragraph_index'', PyInt (int idx)),
             (py ''text'', PyStr para)]) cs"
  by (induction f pid cs rule: chunk_points.induct) (simp_all add: make_point_def)

lemma measuring_run:
  "fst (main small_args measuring_world) = Returned"
  "embed_requests (trace (snd (main small_args measuring_world))) = [long_a, long_b, long_c]"
  by (simp_all add: small_args_def small_gen measuring_world_def run_defs Let_def)

text \<open>
  C6. In a run that returns, the prompts sent to the embedding endpoint are the contents
  of the chunks, one request for each chunk, in the order of the stream: the first chunk,
  embedded to find the dimension, is not sent again by the loop. The points written are
  one for each chunk, in the order of the chunks: their ids are 0, 1, 2 and so on, the
  vector of each is the vector the endpoint returned for the content of its chunk (so the
  first point carries the embedding obtained at the start), and the payload of each is the
  file, the index and the content of its chunk.
\<close>

theorem chunks_embedded_once:
  assumes "text_dir a = Some tree" and "trace w = []" and "fst (main a w) = Returned"
  shows "embed_requests (trace (snd (main a w))) =
           map (\<lambda>(path, idx, para). para) (chunks tree) \<and>
         map p_id (upserted (trace (snd (main a w)))) = [0 ..< length (chunks tree)] \<and>
         map p_vector (upserted (trace (snd (main a w)))) =
           map (\<lambda>(path, idx, para). embedding_of w para) (chunks tree) \<and>
         map p_payload (upserted (trace (snd (main a w)))) =
           map (\<lambda>(path, idx, para).
                  [(py ''file'', PyStr path), (py ''paragraph_index'', PyInt (int idx)),
                   (py ''text'', PyStr para)]) (chunks tree)"
proof -
  have p: "upserted (trace (snd (main a w))) = chunk_points (embedding_of w) 0 (chunks tree)"
    using main_points [OF assms(1,3)] assms(2) by simp
  have r: "embed_requests (trace (snd (main a w))) =
             map (\<lambda>(path, idx, para). para) (chunks tree)"
    using main_requests [OF assms(1,3)] assms(2) by simp
  show ?thesis
    unfolding p using r
    by (simp add: chunk_points_ids chunk_points_vectors chunk_points_payloads)
qed

theorem chunks_embedded_once_witness:
  "text_dir small_args = Some small_corpus \<and> trace measuring_world = [] \<and>
   fst (main small_args measuring_world) = Returned \<and>
   embed_requests (trace (snd (main small_args measuring_world))) = [long_a, long_b, long_c] \<and>
   map p_id (upserted (trace (snd (main small_args measuring_world)))) = [0, 1, 2] \<and>
   map p_vector (upserted (trace (snd (main small_args measuring_world)))) =
     [[79, 1], [61, 1], [59, 1]] \<and>
   map p_payload (upserted (trace (snd (main small_args measuring_world)))) =
     [[(py ''file'', PyStr (py ''a.txt'')), (py ''paragraph_index'', PyInt 0),
       (py ''text'', PyStr long_a)],
      [(py ''file'', PyStr (py ''a.txt'')), (py ''paragraph_index'', PyInt 1),
       (py ''text'', PyStr long_b)],
      [(py ''file'', PyStr (py ''b.txt'')), (py ''paragraph_index'', PyInt 0),
       (py ''text'', PyStr long_c)]]"
proof -
  have h1: "text_dir small_args = Some small_corpus" by (simp add: small_args_def)
  have h2: "trace measuring_world = []" by (simp add: measuring_world_def)
  have h3: "fst (main small_args measuring_world) = Returned" by (rule measuring_run(1))
  have e: "embedding_of measuring_world = (\<lambda>prompt. [real (length prompt), 1])"
    by (simp add: embedding_of_def measuring_world_def fun_eq_iff)
  have l: "length long_a = 79" "length long_b = 61" "length long_c = 59"
    by (simp_all add: long_a_def long_b_def long_c_def py_def)
  have i: "[0 ..< length (chunks small_corpus)] = [0, 1, 2]"
    by (simp add: small_chunks upt_conv_Cons)
  note t = chunks_embedded_once [OF h1 h2 h3, unfolded i e]
  from t have r: "embed_requests (trace (snd (main small_args measuring_world))) =
                    [long_a, long_b, long_c]"
    by (simp add: small_chunks)
  from t have d: "map p_id (upserted (trace (snd (main small_args measuring_world)))) = [0, 1, 2]"
    by simp
  from t have v: "map p_vector (upserted (trace (snd (main small_args measuring_world)))) =
                    [[79, 1], [61, 1], [59, 1]]"
    by (simp add: small_chunks l)
  from t have y: "map p_payload (upserted (trace (snd (main small_args measuring_world)))) =
     [[(py ''file'', PyStr (py ''a.txt'')), (py ''paragraph_index'', PyInt 0),
       (py ''text'', PyStr long_a)],
      [(py ''file'', PyStr (py ''a.txt'')), (py ''paragraph_index'', PyInt 1),
       (py ''text'', PyStr long_b)],
      [(py ''file'', PyStr (py ''b.txt'')), (py ''paragraph_index'', PyInt 0),
       (py ''text'', PyStr long_c)]]"
    by (simp add: small_chunks)
  from h1 h2 h3 r d v y show ?thesis by blast
qed

section \<open>Ensuring the collection\<close>

lemma ensure_collection_unreachable:
  "faults w = Some e # fs \<Longrightarrow>
     ensure_collection name d m w =
       (Inl e, w\<lparr>trace := trace w @ [GetCollection name], faults := fs\<rparr>)"
  by (simp add: ensure_collection_def get_collection_def take_fault_def emit_def)

text \<open>
  C10. Whatever exception \<open>ensure_collection\<close> raises, the step goes on as
  \<open>recreate_collection\<close> does, after the line that the collection is being created: the
  exception is dropped and the next call to the store is \<open>recreate_collection\<close>.
\<close>

theorem ensure_failure_recreates:
  assumes "ensure_collection name d COSINE w = (Inl e, w1)"
  shows "create_or_check name d w =
           recreate_collection name d COSINE (emit (Print (Creating name d)) w1) \<and>
         trace (snd (create_or_check name d w)) =
           trace w1 @ [Print (Creating name d), RecreateCollection name d COSINE]"
  using assms
  by (auto simp: create_or_check_def recreate_collection_def take_fault_def emit_def
           split: list.splits option.splits)

theorem ensure_failure_recreates_witness:
  "ensure_collection (py ''lectio_corpus'') 2 COSINE
     (stale_world\<lparr>faults := [Some (Exn ''ConnectionError'' ''refused'')]\<rparr>) =
     (Inl (Exn ''ConnectionError'' ''refused''),
      stale_world\<lparr>trace := [GetCollection (py ''lectio_corpus'')], faults := []\<rparr>) \<and>
   fst (create_or_check (py ''lectio_corpus'') 2
          (stale_world\<lparr>faults := [Some (Exn ''ConnectionError'' ''refused'')]\<rparr>)) = Inr () \<and>
   trace (snd (create_or_check (py ''lectio_corpus'') 2
          (stale_world\<lparr>faults := [Some (Exn ''ConnectionError'' ''refused'')]\<rparr>))) =
     [GetCollection (py ''lectio_corpus''), Print (Creating (py ''lectio_corpus'') 2),
      RecreateCollection (py ''lectio_corpus'') 2 COSINE] \<and>
   fst (main small_args unreachable_world) = Returned \<and>
   take 2 (store_calls (trace (snd (main small_args unreachable_world)))) =
     [GetCollection (py ''lectio_corpus''), RecreateCollection (py ''lectio_corpus'') 2 COSINE]"
proof -
  have m: "fst (main small_args unreachable_world) = Returned"
    "take 2 (store_calls (trace (snd (main small_args unreachable_world)))) =
       [GetCollection (py ''lectio_corpus''), RecreateCollection (py ''lectio_corpus'') 2 COSINE]"
    by (simp_all add: small_args_def small_gen unreachable_world_def fresh_world_def run_defs
          Let_def)
  have h: "ensure_collection (py ''lectio_corpus'') 2 COSINE
             (stale_world\<lparr>faults := [Some (Exn ''ConnectionError'' ''refused'')]\<rparr>) =
             (Inl (Exn ''ConnectionError'' ''refused''),
              stale_world\<lparr>trace := [GetCollection (py ''lectio_corpus'')], faults := []\<rparr>)"
    using ensure_collection_unreachable
      [of "stale_world\<lparr>faults := [Some (Exn ''ConnectionError'' ''refused'')]\<rparr>"
          "Exn ''ConnectionError'' ''refused''" "[]" "py ''lectio_corpus''" 2 COSINE]
    by (simp add: stale_world_def)
  show ?thesis
    using ensure_failure_recreates [OF h] h m
    by (simp add: recreate_collection_def take_fault_def emit_def stale_world_def)
qed

text \<open>
  C1, at a collection of dimension 2 that holds three points, on a store that reports the
  number of vectors: \<open>ensure_collection\<close> with the same name and dimension takes the
  count 3 for the dimension, prints that it recreates, calls \<open>recreate_collection\<close>,
  and the collection is left without points.
\<close>

theorem ensure_collection_same_dimension_recreates:
  "(case ensure_collection (py ''lectio_corpus'') 2 COSINE stale_world of
      (r, w) \<Rightarrow> (r, trace w, map_option points (collections w (py ''lectio_corpus'')))) =
   (Inr (),
    [GetCollection (py ''lectio_corpus''), Print (Recreating (py ''lectio_corpus'') 2),
     RecreateCollection (py ''lectio_corpus'') 2 COSINE],
    Some [])"
  by (simp add: ensure_collection_def get_collection_def recreate_collection_def take_fault_def
        emit_def stale_world_def existing_dim_def py_def)

section \<open>Runs that meet no failure\<close>

lemma answers_emit [simp]: "answers (emit e w) = answers w"
  by (rule answers_eq) simp

lemma ensure_collection_reuses:
  assumes "collections w name = Some c" and "vectors c = VectorParams d m'"
    and "faults w = []"
    and "\<not> counts_vectors w \<or> points c = [] \<or> length (points c) = d"
  shows "ensure_collection name d m w =
           (Inr (), w\<lparr>trace := trace w @ [GetCollection name, Print (Reusing name d)]\<rparr>)"
  using assms
  by (cases "length (points c)")
     (auto simp: ensure_collection_def get_collection_def take_fault_def emit_def existing_dim_def)

lemma recreate_collection_healthy:
  assumes "faults w = []"
  shows "\<exists>w1. recreate_collection name d m w = (Inr (), w1) \<and> faults w1 = [] \<and>
              collections w1 name \<noteq> None \<and> ollama w1 = ollama w"
  using assms by (simp add: recreate_collection_def take_fault_def emit_def)

lemma get_collection_fields:
  "get_collection name w = (r, w1) \<Longrightarrow> faults w = [] \<Longrightarrow>
     faults w1 = [] \<and> collections w1 = collections w \<and> ollama w1 = ollama w \<and>
     (\<forall>i. r = Inr i \<longrightarrow> collections w name \<noteq> None)"
  by (auto simp: get_collection_def take_fault_def emit_def split: option.splits)

lemma ensure_collection_healthy:
  assumes "faults w = []" and "ensure_collection name d m w = (r, w1)"
  shows "faults w1 = [] \<and> ollama w1 = ollama w \<and> (\<forall>u. r = Inr u \<longrightarrow> collections w1 name \<noteq> None)"
proof -
  obtain r0 w0 where g: "get_collection name w = (r0, w0)"
    by (cases "get_collection name w")
  note f = get_collection_fields [OF g assms(1)]
  show ?thesis
  proof (cases r0)
    case (Inl e)
    with assms g f show ?thesis by (auto simp: ensure_collection_def)
  next
    case (Inr existing)
    show ?thesis
    proof (cases "existing_dim existing")
      case (Inl e)
      with assms g f Inr show ?thesis by (auto simp: ensure_collection_def)
    next
      case d: (Inr d')
      show ?thesis
      proof (cases "d' = d")
        case True
        with assms g f Inr d show ?thesis by (auto simp: ensure_collection_def)
      next
        case False
        with assms g Inr d
        have "recreate_collection name d m (emit (Print (Recreating name d)) w0) = (r, w1)"
          by (simp add: ensure_collection_def)
        with recreate_collection_healthy [of "emit (Print (Recreating name d)) w0" name d m] f
        show ?thesis by auto
      qed
    qed
  qed
qed

lemma create_or_check_healthy:
  assumes "faults w = []"
  shows "\<exists>w1. create_or_check name d w = (Inr (), w1) \<and> faults w1 = [] \<and>
              collections w1 name \<noteq> None \<and> ollama w1 = ollama w"
proof -
  obtain r0 w0 where g: "ensure_collection name d COSINE w = (r0, w0)"
    by (cases "ensure_collection name d COSINE w")
  note h = ensure_collection_healthy [OF assms g]
  show ?thesis
  proof (cases r0)
    case (Inl e)
    with g have "create_or_check name d w =
                   recreate_collection name d COSINE (emit (Print (Creating name d)) w0)"
      by (simp add: create_or_check_def)
    with recreate_collection_healthy [of "emit (Print (Creating name d)) w0" name d COSINE] h
    show ?thesis by auto
  next
    case (Inr u)
    with g h show ?thesis by (auto simp: create_or_check_def)
  qed
qed

lemma upsert_healthy:
  assumes "faults w = []" and "collections w name \<noteq> None"
  shows "\<exists>w1. upsert name pts w = (Inr (), w1) \<and> faults w1 = [] \<and>
              collections w1 name \<noteq> None \<and> ollama w1 = ollama w"
  using assms by (auto simp: upsert_def take_fault_def emit_def)

lemma index_loop_healthy:
  assumes "faults w = []" and "collections w (collection a) \<noteq> None"
    and "\<forall>t \<in> set (fresh_texts items). answers w t"
  shows "\<exists>buf' w'. index_loop a items pid buf w = (Inr buf', w') \<and> faults w' = [] \<and>
           collections w' (collection a) \<noteq> None"
  using assms
proof (induction items arbitrary: pid buf w)
  case Nil
  then show ?case by simp
next
  case (Cons it items)
  show ?case
  proof (cases it)
    case (Printed m)
    with Cons.prems Cons.IH [of "emit (Print m) w" pid buf] show ?thesis by simp
  next
    case (Yielded path idx para maybe_emb)
    have "\<exists>emb w1. (case maybe_emb of None \<Rightarrow> get_embedding para w | Some emb \<Rightarrow> (Inr emb, w)) = (Inr emb, w1)
            \<and> faults w1 = [] \<and> collections w1 (collection a) \<noteq> None \<and> answers w1 = answers w"
    proof (cases maybe_emb)
      case None
      with Cons.prems(3) Yielded have "answers w para" by simp
      from get_embedding_answers [OF this] None Cons.prems(1,2) show ?thesis by auto
    next
      case (Some emb)
      with Cons.prems(1,2) show ?thesis by simp
    qed
    then obtain emb w1 where
      e: "(case maybe_emb of None \<Rightarrow> get_embedding para w | Some emb \<Rightarrow> (Inr emb, w)) = (Inr emb, w1)"
      and w1: "faults w1 = []" "collections w1 (collection a) \<noteq> None" "answers w1 = answers w"
      by blast
    have rest: "\<forall>t \<in> set (fresh_texts items). answers w1 t"
      using Cons.prems(3) Yielded w1(3) by (cases maybe_emb) auto
    let ?buf1 = "buf @ [make_point pid emb path idx para]"
    show ?thesis
    proof (cases "int (length ?buf1) \<ge> batch_size a")
      case True
      from upsert_healthy [OF w1(1,2), of ?buf1] obtain w2 where
        u: "upsert (collection a) ?buf1 w1 = (Inr (), w2)" and
        w2: "faults w2 = []" "collections w2 (collection a) \<noteq> None" "ollama w2 = ollama w1"
        by blast
      let ?w3 = "emit (Print (Upserted (length ?buf1) path)) w2"
      have "answers ?w3 = answers w1"
        using w2(3) by (intro answers_eq) simp
      with rest have "\<forall>t \<in> set (fresh_texts items). answers ?w3 t" by simp
      from Cons.IH [of ?w3 "Suc pid" "[]", OF _ _ this] w2
      obtain buf' w' where "index_loop a items (Suc pid) [] ?w3 = (Inr buf', w')"
        "faults w' = []" "collections w' (collection a) \<noteq> None" by auto
      with Yielded e True u show ?thesis by (simp add: Let_def)
    next
      case False
      from Cons.IH [of w1 "Suc pid" ?buf1, OF w1(1,2) rest]
      obtain buf' w' where "index_loop a items (Suc pid) ?buf1 w1 = (Inr buf', w')"
        "faults w' = []" "collections w' (collection a) \<noteq> None" by auto
      with Yielded e False show ?thesis by (simp add: Let_def)
    qed
  qed
qed


lemma flush_final_healthy:
  assumes "faults w = []" and "collections w (collection a) \<noteq> None"
  shows "fst (flush_final a buf w) = Returned"
proof (cases "buf = []")
  case True
  then show ?thesis by (simp add: flush_final_def)
next
  case False
  from upsert_healthy [OF assms, of buf] obtain w1 where
    "upsert (collection a) buf w = (Inr (), w1)" by blast
  with False show ?thesis by (simp add: flush_final_def)
qed

lemma index_from_healthy:
  assumes "faults w = []"
    and "\<forall>(path, idx, para) \<in> set (yielded gen). answers w para"
  shows "fst (index_from a gen w) = Returned"
proof (cases "yielded gen = []")
  case True
  obtain nx w1 where n: "next_paragraph gen w = (nx, w1)"
    by (cases "next_paragraph gen w")
  with True have "nx = None"
    by (cases nx) (auto dest: next_paragraph_some)
  with n show ?thesis by (simp add: index_from_def)
next
  case False
  from next_paragraph_yielded [OF False, of w] obtain path idx para rest w1 where
    n: "next_paragraph gen w = (Some ((path, idx, para), rest), w1)" and
    y: "yielded gen = (path, idx, para) # yielded rest"
    by blast
  note f1 = next_paragraph_fields [OF n]
  have a1: "answers w1 = answers w"
    using f1 by (auto simp: answers_def fun_eq_iff)
  let ?w1 = "emit (Print (GettingDimension path)) w1"
  have "answers ?w1 para" using assms(2) y a1 by simp
  from get_embedding_answers [OF this] obtain emb where
    g: "get_embedding para ?w1 = (Inr emb, emit (EmbedRequest para) ?w1)"
    by blast
  let ?w2 = "emit (Print (EmbeddingDimension (length emb))) (emit (EmbedRequest para) ?w1)"
  have "faults ?w2 = []" using f1 assms(1) by simp
  from create_or_check_healthy [OF this, of "collection a" "length emb"] obtain w3 where
    c: "create_or_check (collection a) (length emb) ?w2 = (Inr (), w3)" and
    w3: "faults w3 = []" "collections w3 (collection a) \<noteq> None" "ollama w3 = ollama ?w2"
    by blast
  have a3: "answers w3 = answers w"
    using w3(3) f1 by (auto simp: answers_def fun_eq_iff)
  have "\<forall>t \<in> set (fresh_texts (all_paragraphs path idx para emb rest)). answers w3 t"
    using assms(2) y a3 by (auto simp: all_paragraphs_def fresh_texts_rest)
  from index_loop_healthy [OF w3(1,2) this, of 0 "[]"] obtain buf w4 where
    l: "index_loop a (all_paragraphs path idx para emb rest) 0 [] w3 = (Inr buf, w4)" and
    w4: "faults w4 = []" "collections w4 (collection a) \<noteq> None"
    by blast
  from n g c l flush_final_healthy [OF w4, of buf] show ?thesis
    by (simp add: index_from_def)
qed

text \<open>With a store that does not fail and an endpoint that answers for every chunk, the run returns.\<close>

lemma main_returns:
  assumes "text_dir a = Some tree" and "faults w = []"
    and "\<forall>(path, idx, para) \<in> set (chunks tree). answers w para"
  shows "fst (main a w) = Returned"
proof (cases "chunks tree = []")
  case True
  then show ?thesis by (simp add: main_empty [OF assms(1)])
next
  case False
  let ?w1 = "emit (Print (FoundParagraphs (length (chunks tree))))
               (w\<lparr>trace := trace w @ map Print (notices (iter_paragraphs tree))\<rparr>)"
  have "faults ?w1 = []" using assms(2) by simp
  moreover have "answers ?w1 = answers w" by (auto simp: answers_def fun_eq_iff)
  ultimately have "fst (index_from a (iter_paragraphs tree) ?w1) = Returned"
    using assms(3) by (intro index_from_healthy) (auto simp: chunks_def)
  then show ?thesis by (simp add: main_nonempty [OF assms(1) False])
qed



section \<open>The search handler\<close>

text \<open>
  C3. A query that is empty after stripping is answered with the \<open>HTTPException\<close> of
  status 400, and no call is made: neither to the embedding endpoint nor to the store.
\<close>

theorem search_empty_query_rejected:
  "strip (query req) = [] \<Longrightarrow>
     search b req = (Inl (HTTPException 400 ''Query text is empty.''), [])"
  by (simp add: search_def)

theorem search_empty_query_rejected_witness:
  "strip (query (SearchRequest (py ''  '') None)) = [] \<and>
   search demo_backend (SearchRequest (py ''  '') None) =
     (Inl (HTTPException 400 ''Query text is empty.''), [])"
proof -
  have h: "strip (query (SearchRequest (py ''  '') None)) = []"
    by (simp add: SearchRequest_def py_def strip_def isspace_def)
  show ?thesis using h search_empty_query_rejected [OF h, of demo_backend] by simp
qed

text \<open>
  C9. Two requests whose queries are equal after stripping and whose \<open>top_k\<close> are equal
  get, from the same services, the same answer through the same calls: the prompt sent to
  the embedding endpoint is the stripped query.
\<close>

theorem search_trims_query:
  assumes q: "strip (query r1) = strip (query r2)" and k: "top_k r1 = top_k r2"
  shows "search b r1 = search b r2"
  unfolding search_def q k ..

theorem search_trims_query_witness:
  "strip (query (SearchRequest (py '' cat  '') None)) = strip (query (SearchRequest (py ''cat'') (Some 5))) \<and>
   top_k (SearchRequest (py '' cat  '') None) = top_k (SearchRequest (py ''cat'') (Some 5)) \<and>
   search demo_backend (SearchRequest (py '' cat  '') None) =
     search demo_backend (SearchRequest (py ''cat'') (Some 5)) \<and>
   snd (search demo_backend (SearchRequest (py '' cat  '') None)) =
     [Embed (py ''cat''), Search (py ''lectio_corpus'') [1, 0] 5]"
proof -
  have h1: "strip (query (SearchRequest (py '' cat  '') None)) =
            strip (query (SearchRequest (py ''cat'') (Some 5)))"
    by (simp add: SearchRequest_def py_def strip_def isspace_def)
  have h2: "top_k (SearchRequest (py '' cat  '') None) = top_k (SearchRequest (py ''cat'') (Some 5))"
    by (simp add: SearchRequest_def)
  have c: "snd (search demo_backend (SearchRequest (py ''cat'') (Some 5))) =
             [Embed (py ''cat''), Search (py ''lectio_corpus'') [1, 0] 5]"
    by (simp add: search_def demo_backend_def SearchRequest_def py_def strip_def isspace_def
          lectio_get_embedding_def)
  show ?thesis
    using search_trims_query [OF h1 h2, of demo_backend] h1 h2 c by simp
qed

text \<open>
  C2 as stated fails: a request with \<open>top_k = 0\<close> is not rejected by the handler; the
  limit 0 goes to the store, and when the store refuses it the answer is the 502 of a
  failed search, not a validation error.
\<close>

theorem search_top_k_zero_counterexample:
  "search strict_backend \<lparr>query = py ''a'', top_k = 0\<rparr> =
     (Inl (HTTPException 502 ''Qdrant search failed: 400 (Bad Request)''),
      [Embed (py ''a''), Search (py ''lectio_corpus'') [1, 0] 0])"
  by (simp add: search_def strict_backend_def py_def strip_def isspace_def
        lectio_get_embedding_def)

text \<open>
  C2, amended. The handler does not look at \<open>top_k\<close>: when the stripped query is not
  empty, the answer is never the 400 response, whatever \<open>top_k\<close> is; when the embedding is
  obtained, \<open>top_k\<close> is passed unchanged as the limit of the store's search; and when the
  store refuses that search, the answer is the 502 response of a failed search.
\<close>

theorem search_forwards_top_k:
  assumes "strip (query req) \<noteq> []"
  shows "(\<forall>detail. fst (search b req) \<noteq> Inl (HTTPException 400 detail)) \<and>
         (\<forall>v. embed_endpoint b (strip (query req)) = Embedding v \<longrightarrow>
              snd (search b req) =
                [Embed (strip (query req)), Search (qdrant_collection b) v (top_k req)] \<and>
              (\<forall>e. qdrant_search b (qdrant_collection b) v (top_k req) = Inl e \<longrightarrow>
                   fst (search b req) =
                     Inl (HTTPException 502 (''Qdrant search failed: '' @ exn_str e))))"
  using assms
  by (auto simp: search_def lectio_get_embedding_def Let_def
           split: ollama_reply.splits sum.splits raised.splits)

theorem search_forwards_top_k_witness:
  "strip (query \<lparr>query = py ''a'', top_k = - 3\<rparr>) \<noteq> [] \<and>
   embed_endpoint strict_backend (strip (query \<lparr>query = py ''a'', top_k = - 3\<rparr>)) =
     Embedding [1, 0] \<and>
   qdrant_search strict_backend (qdrant_collection strict_backend) [1, 0]
       (top_k \<lparr>query = py ''a'', top_k = - 3\<rparr>) =
     Inl (Exn ''UnexpectedResponse'' ''400 (Bad Request)'') \<and>
   fst (search strict_backend \<lparr>query = py ''a'', top_k = - 3\<rparr>) \<noteq>
     Inl (HTTPException 400 ''Query text is empty.'') \<and>
   snd (search strict_backend \<lparr>query = py ''a'', top_k = - 3\<rparr>) =
     [Embed (py ''a''), Search (py ''lectio_corpus'') [1, 0] (- 3)] \<and>
   fst (search strict_backend \<lparr>query = py ''a'', top_k = - 3\<rparr>) =
     Inl (HTTPException 502 ''Qdrant search failed: 400 (Bad Request)'')"
proof -
  let ?req = "\<lparr>query = py ''a'', top_k = - 3\<rparr>"
  have h: "strip (query ?req) \<noteq> []"
    by (simp add: py_def strip_def isspace_def)
  have s: "strip (query ?req) = py ''a''"
    by (simp add: py_def strip_def isspace_def)
  have e: "embed_endpoint strict_backend (strip (query ?req)) = Embedding [1, 0]"
    by (simp add: strict_backend_def)
  have c: "qdrant_collection strict_backend = py ''lectio_corpus''"
    by (simp add: strict_backend_def)
  have q: "qdrant_search strict_backend (qdrant_collection strict_backend) [1, 0] (top_k ?req) =
             Inl (Exn ''UnexpectedResponse'' ''400 (Bad Request)'')"
    by (simp add: strict_backend_def)
  show ?thesis
    using search_forwards_top_k [OF h, of strict_backend] h e s c q by simp
qed

section \<open>Mapping the points\<close>

lemma point_to_result_ok:
  assumes "index_ok b p"
  shows "\<exists>r. point_to_result b p = Inr r \<and>
             (lacks p ''file'' \<longrightarrow> r_file r = []) \<and>
             (lacks p ''paragraph_index'' \<longrightarrow> r_paragraph_index r = 0) \<and>
             (lacks p ''text'' \<longrightarrow> r_text r = [])"
  using assms
  by (auto simp: point_to_result_def index_ok_def lacks_def dict_get_def py_int_def py_str_def
                 Let_def
           split: option.splits sum.splits)

lemma results_of_ok:
  assumes "\<forall>p \<in> set pts. index_ok b p"
  shows "\<exists>rs. results_of b pts = Inr rs \<and> length rs = length pts \<and>
           (\<forall>i < length pts.
              (lacks (pts ! i) ''file'' \<longrightarrow> r_file (rs ! i) = []) \<and>
              (lacks (pts ! i) ''paragraph_index'' \<longrightarrow> r_paragraph_index (rs ! i) = 0) \<and>
              (lacks (pts ! i) ''text'' \<longrightarrow> r_text (rs ! i) = []))"
  using assms
proof (induction pts)
  case Nil
  then show ?case by simp
next
  case (Cons p ps)
  from Cons.prems obtain r where r: "point_to_result b p = Inr r"
    "lacks p ''file'' \<longrightarrow> r_file r = []"
    "lacks p ''paragraph_index'' \<longrightarrow> r_paragraph_index r = 0"
    "lacks p ''text'' \<longrightarrow> r_text r = []"
    using point_to_result_ok [of b p] by auto
  from Cons obtain rs where rs: "results_of b ps = Inr rs" "length rs = length ps"
    "\<forall>i < length ps.
       (lacks (ps ! i) ''file'' \<longrightarrow> r_file (rs ! i) = []) \<and>
       (lacks (ps ! i) ''paragraph_index'' \<longrightarrow> r_paragraph_index (rs ! i) = 0) \<and>
       (lacks (ps ! i) ''text'' \<longrightarrow> r_text (rs ! i) = [])"
    by auto
  have "results_of b (p # ps) = Inr (r # rs)" using r(1) rs(1) by simp
  moreover have "length (r # rs) = length (p # ps)" using rs(2) by simp
  moreover have "\<forall>i < length (p # ps).
       (lacks ((p # ps) ! i) ''file'' \<longrightarrow> r_file ((r # rs) ! i) = []) \<and>
       (lacks ((p # ps) ! i) ''paragraph_index'' \<longrightarrow> r_paragraph_index ((r # rs) ! i) = 0) \<and>
       (lacks ((p # ps) ! i) ''text'' \<longrightarrow> r_text ((r # rs) ! i) = [])"
  proof (intro allI impI)
    fix i assume "i < length (p # ps)"
    then show "(lacks ((p # ps) ! i) ''file'' \<longrightarrow> r_file ((r # rs) ! i) = []) \<and>
       (lacks ((p # ps) ! i) ''paragraph_index'' \<longrightarrow> r_paragraph_index ((r # rs) ! i) = 0) \<and>
       (lacks ((p # ps) ! i) ''text'' \<longrightarrow> r_text ((r # rs) ! i) = [])"
      using r(2-4) rs(3) by (cases i) auto
  qed
  ultimately show ?case by blast
qed

text \<open>
  C8 as stated fails: of two points the store returns, the second has a payload whose
  \<open>paragraph_index\<close> is null; \<open>int\<close> raises on it and the exception leaves the handler,
  so that no result is returned, not even that of the first point.
\<close>

theorem search_null_index_counterexample:
  "search null_index_backend \<lparr>query = py ''a'', top_k = 5\<rparr> =
     (Inl (Error (Exn ''TypeError''
        ''int() argument must be a string, a bytes-like object or a real number, not NoneType'')),
      [Embed (py ''a''), Search (py ''lectio_corpus'') [1, 0] 5])"
  by (simp add: search_def null_index_backend_def py_def strip_def isspace_def
        lectio_get_embedding_def point_to_result_def payload_or_empty_def dict_get_def py_int_def)

text \<open>
  C8, amended. When the store returns points of which each has a \<open>paragraph_index\<close> that
  is missing or that \<open>int\<close> accepts, the handler answers with one result for each point,
  in order; where a point lacks \<open>file\<close>, \<open>paragraph_index\<close> or \<open>text\<close> (or has no payload
  at all), the result has the empty string, zero, the empty string in that place.
\<close>

theorem search_maps_sparse_points:
  assumes "strip (query req) \<noteq> []"
    and "embed_endpoint b (strip (query req)) = Embedding v"
    and "qdrant_search b (qdrant_collection b) v (top_k req) = Inr pts"
    and "\<forall>p \<in> set pts. index_ok b p"
  shows "\<exists>rs. fst (search b req) = Inr rs \<and> length rs = length pts \<and>
           (\<forall>i < length pts.
              (lacks (pts ! i) ''file'' \<longrightarrow> r_file (rs ! i) = []) \<and>
              (lacks (pts ! i) ''paragraph_index'' \<longrightarrow> r_paragraph_index (rs ! i) = 0) \<and>
              (lacks (pts ! i) ''text'' \<longrightarrow> r_text (rs ! i) = []))"
proof -
  from results_of_ok [OF assms(4)] obtain rs where rs: "results_of b pts = Inr rs"
    "length rs = length pts"
    "\<forall>i < length pts.
       (lacks (pts ! i) ''file'' \<longrightarrow> r_file (rs ! i) = []) \<and>
       (lacks (pts ! i) ''paragraph_index'' \<longrightarrow> r_paragraph_index (rs ! i) = 0) \<and>
       (lacks (pts ! i) ''text'' \<longrightarrow> r_text (rs ! i) = [])"
    by blast
  have "fst (search b req) = Inr rs"
    using assms(1-3) rs(1) by (simp add: search_def lectio_get_embedding_def Let_def)
  with rs(2,3) show ?thesis by blast
qed

theorem search_maps_sparse_points_witness:
  "strip (query \<lparr>query = py ''a'', top_k = 5\<rparr>) \<noteq> [] \<and>
   embed_endpoint sparse_backend (strip (query \<lparr>query = py ''a'', top_k = 5\<rparr>)) = Embedding [1, 0] \<and>
   qdrant_search sparse_backend (qdrant_collection sparse_backend) [1, 0]
       (top_k \<lparr>query = py ''a'', top_k = 5\<rparr>) =
     Inr [\<lparr>sp_id = 0, sp_score = 1, sp_payload = None\<rparr>,
          \<lparr>sp_id = 1, sp_score = 1, sp_payload = Some [(py ''text'', PyStr (py ''abc''))]\<rparr>] \<and>
   index_ok sparse_backend \<lparr>sp_id = 0, sp_score = 1, sp_payload = None\<rparr> \<and>
   index_ok sparse_backend
     \<lparr>sp_id = 1, sp_score = 1, sp_payload = Some [(py ''text'', PyStr (py ''abc''))]\<rparr> \<and>
   fst (search sparse_backend \<lparr>query = py ''a'', top_k = 5\<rparr>) =
     Inr [\<lparr>r_score = 1, r_file = [], r_paragraph_index = 0, r_text = []\<rparr>,
          \<lparr>r_score = 1, r_file = [], r_paragraph_index = 0, r_text = py ''abc''\<rparr>]"
proof -
  let ?req = "\<lparr>query = py ''a'', top_k = 5\<rparr>"
  let ?pts = "[\<lparr>sp_id = 0, sp_score = 1, sp_payload = None\<rparr>,
               \<lparr>sp_id = 1, sp_score = 1, sp_payload = Some [(py ''text'', PyStr (py ''abc''))]\<rparr>]"
  have h1: "strip (query ?req) \<noteq> []"
    by (simp add: py_def strip_def isspace_def)
  have h2: "embed_endpoint sparse_backend (strip (query ?req)) = Embedding [1, 0]"
    by (simp add: sparse_backend_def)
  have h3: "qdrant_search sparse_backend (qdrant_collection sparse_backend) [1, 0] (top_k ?req) =
              Inr ?pts"
    by (simp add: sparse_backend_def)
  have h4: "\<forall>p \<in> set ?pts. index_ok sparse_backend p"
    by (simp add: index_ok_def payload_or_empty_def py_def)
  have v: "fst (search sparse_backend ?req) =
     Inr [\<lparr>r_score = 1, r_file = [], r_paragraph_index = 0, r_text = []\<rparr>,
          \<lparr>r_score = 1, r_file = [], r_paragraph_index = 0, r_text = py ''abc''\<rparr>]"
    by (simp add: search_def sparse_backend_def py_def strip_def isspace_def
          lectio_get_embedding_def point_to_result_def payload_or_empty_def dict_get_def
          py_int_def py_str_def)
  show ?thesis
    using search_maps_sparse_points [OF h1 h2 h3 h4] h1 h2 h3 h4 v by simp
qed

end
